theory Spec2Isabelle
  imports Main
begin

section \<open>JavaScript values\<close>

text \<open>
  The values the program handles are the results of \<^verbatim>\<open>JSON.parse\<close>, the object literals
  built by \<^verbatim>\<open>transformStation\<close> and \<^verbatim>\<open>transformFeed\<close>, and \<^verbatim>\<open>undefined\<close>, which a
  read of a missing property yields. Numbers are IEEE doubles in JavaScript; the program
  never computes with the numbers of the feed, it only passes them on, so their type is
  left as the parameter \<open>'n\<close>. An object is the list of its own properties in the order
  in which JavaScript enumerates them.
\<close>

datatype jerror = TypeError | SyntaxError | NetworkError

datatype 'n jsval =
    JUndefined
  | JNull
  | JBool bool
  | JNum 'n
  | JStr string
  | JArr "'n jsval list"
  | JObj "(string \<times> 'n jsval) list"

text \<open>
  The property read \<^verbatim>\<open>v.k\<close>, for a key \<open>k\<close> that no prototype defines (the program
  reads \<^verbatim>\<open>stationBeanList\<close>, \<^verbatim>\<open>longitude\<close> and \<^verbatim>\<open>latitude\<close>): on \<^verbatim>\<open>undefined\<close> and
  \<^verbatim>\<open>null\<close> it throws a TypeError, on an object it is the property or \<^verbatim>\<open>undefined\<close>, on
  every other value it is \<^verbatim>\<open>undefined\<close>.
\<close>

fun getProp :: "'n jsval \<Rightarrow> string \<Rightarrow> jerror + 'n jsval" where
  "getProp JUndefined k = Inl TypeError"
| "getProp JNull k = Inl TypeError"
| "getProp (JObj kvs) k = Inr (case map_of kvs k of None \<Rightarrow> JUndefined | Some v \<Rightarrow> v)"
| "getProp v k = Inr JUndefined"

text \<open>
  \<^verbatim>\<open>xs.map(f)\<close> for a callback that may throw: the elements are visited in order and the
  first exception ends the loop. On a value that is not an array the call itself throws
  a TypeError (the receiver is \<^verbatim>\<open>undefined\<close>, or it has no callable \<^verbatim>\<open>map\<close>).
\<close>

fun mapThrowing :: "('a \<Rightarrow> jerror + 'b) \<Rightarrow> 'a list \<Rightarrow> jerror + 'b list" where
  "mapThrowing f [] = Inr []"
| "mapThrowing f (x # xs) =
     (case f x of
        Inl e \<Rightarrow> Inl e
      | Inr y \<Rightarrow> (case mapThrowing f xs of Inl e \<Rightarrow> Inl e | Inr ys \<Rightarrow> Inr (y # ys)))"

fun callMap :: "'n jsval \<Rightarrow> ('n jsval \<Rightarrow> jerror + 'n jsval) \<Rightarrow> jerror + 'n jsval" where
  "callMap (JArr xs) f = (case mapThrowing f xs of Inl e \<Rightarrow> Inl e | Inr ys \<Rightarrow> Inr (JArr ys))"
| "callMap v f = Inl TypeError"

section \<open>The feed transformer\<close>

text \<open>
  \<^verbatim>\<open>function transformStation(station)\<close>: the object literal reads \<^verbatim>\<open>station.longitude\<close>
  and \<^verbatim>\<open>station.latitude\<close>, in this order, and keeps the station itself as \<^verbatim>\<open>properties\<close>.
\<close>

definition transformStation :: "'n jsval \<Rightarrow> jerror + 'n jsval" where
  "transformStation station =
     (case getProp station ''longitude'' of
        Inl e \<Rightarrow> Inl e
      | Inr lon \<Rightarrow>
          (case getProp station ''latitude'' of
             Inl e \<Rightarrow> Inl e
           | Inr lat \<Rightarrow>
               Inr (JObj [(''type'', JStr ''Feature''),
                          (''geometry'', JObj [(''type'', JStr ''Point''),
                                               (''coordinates'', JArr [lon, lat])]),
                          (''properties'', station)])))"

text \<open>\<^verbatim>\<open>function transformFeed(stationFeedData)\<close>.\<close>

definition transformFeed :: "'n jsval \<Rightarrow> jerror + 'n jsval" where
  "transformFeed stationFeedData =
     (case getProp stationFeedData ''stationBeanList'' of
        Inl e \<Rightarrow> Inl e
      | Inr beans \<Rightarrow>
          (case callMap beans transformStation of
             Inl e \<Rightarrow> Inl e
           | Inr features \<Rightarrow>
               Inr (JObj [(''type'', JStr ''FeatureCollection''),
                          (''features'', features)])))"

text \<open>The Feature that \<^verbatim>\<open>transformStation\<close> builds from two coordinates and a station.\<close>

definition feature :: "'n jsval \<Rightarrow> 'n jsval \<Rightarrow> 'n jsval \<Rightarrow> 'n jsval" where
  "feature lon lat station =
     JObj [(''type'', JStr ''Feature''),
           (''geometry'', JObj [(''type'', JStr ''Point''),
                                (''coordinates'', JArr [lon, lat])]),
           (''properties'', station)]"

definition featureCollection :: "'n jsval list \<Rightarrow> 'n jsval" where
  "featureCollection fs = JObj [(''type'', JStr ''FeatureCollection''), (''features'', JArr fs)]"

section \<open>The runtime's JSON functions\<close>

text \<open>
  \<^verbatim>\<open>JSON.parse\<close> and \<^verbatim>\<open>JSON.stringify\<close> belong to the JavaScript runtime, not to the
  program. The parser is a parameter of the model (it returns a value or throws a
  SyntaxError), and so is the text of a number. The rest of \<^verbatim>\<open>JSON.stringify(v, null, n)\<close>
  is written out after the language standard (SerializeJSONProperty, SerializeJSONObject,
  SerializeJSONArray, QuoteJSONString), for strings whose code units are below 256.
\<close>

record 'n runtime =
  JSON_parse :: "string \<Rightarrow> jerror + 'n jsval"
  serializeNumber :: "'n \<Rightarrow> string"

definition newline :: string where
  "newline = [CHR 0x0A]"

definition hexDigit :: "nat \<Rightarrow> char" where
  "hexDigit d = ''0123456789abcdef'' ! (d mod 16)"

definition quoteChar :: "char \<Rightarrow> string" where
  "quoteChar c =
     (let n = (of_char c :: nat) in
      if n = 0x08 then [CHR 0x5C, CHR ''b'']
      else if n = 0x09 then [CHR 0x5C, CHR ''t'']
      else if n = 0x0A then [CHR 0x5C, CHR ''n'']
      else if n = 0x0C then [CHR 0x5C, CHR ''f'']
      else if n = 0x0D then [CHR 0x5C, CHR ''r'']
      else if n = 0x22 then [CHR 0x5C, CHR 0x22]
      else if n = 0x5C then [CHR 0x5C, CHR 0x5C]
      else if n < 0x20 then
        [CHR 0x5C, CHR ''u'', CHR ''0'', CHR ''0'', hexDigit (n div 16), hexDigit (n mod 16)]
      else [c])"

definition QuoteJSONString :: "string \<Rightarrow> string" where
  "QuoteJSONString s = [CHR 0x22] @ concat (map quoteChar s) @ [CHR 0x22]"

fun join :: "string \<Rightarrow> string list \<Rightarrow> string" where
  "join sep [] = []"
| "join sep [x] = x"
| "join sep (x # y # ys) = x @ sep @ join sep (y # ys)"

text \<open>
  The brackets around the serialized members of an array or an object: \<open>stepback\<close> is
  the indentation of the enclosing level and \<open>gap\<close> the indentation unit.
\<close>

definition wrapMembers :: "string \<Rightarrow> string \<Rightarrow> string \<Rightarrow> string \<Rightarrow> string list \<Rightarrow> string" where
  "wrapMembers opening closing gap stepback partial =
     (if partial = [] then opening @ closing
      else if gap = [] then opening @ join '','' partial @ closing
      else
        (let indent = stepback @ gap in
         opening @ newline @ indent @ join ('','' @ newline @ indent) partial
           @ newline @ stepback @ closing))"

text \<open>
  The result \<open>None\<close> stands for \<^verbatim>\<open>undefined\<close>: such a member is left out of an object
  and written \<^verbatim>\<open>null\<close> in an array.
\<close>

fun SerializeJSONProperty :: "('n \<Rightarrow> string) \<Rightarrow> string \<Rightarrow> string \<Rightarrow> 'n jsval \<Rightarrow> string option" where
  "SerializeJSONProperty num gap indent JUndefined = None"
| "SerializeJSONProperty num gap indent JNull = Some ''null''"
| "SerializeJSONProperty num gap indent (JBool b) = Some (if b then ''true'' else ''false'')"
| "SerializeJSONProperty num gap indent (JNum n) = Some (num n)"
| "SerializeJSONProperty num gap indent (JStr s) = Some (QuoteJSONString s)"
| "SerializeJSONProperty num gap indent (JArr xs) =
     Some (wrapMembers ''['' '']'' gap indent
       (map (\<lambda>x. case SerializeJSONProperty num gap (indent @ gap) x of
                    None \<Rightarrow> ''null''
                  | Some t \<Rightarrow> t) xs))"
| "SerializeJSONProperty num gap indent (JObj kvs) =
     Some (wrapMembers ''{'' ''}'' gap indent
       (concat (map (\<lambda>kv. case SerializeJSONProperty num gap (indent @ gap) (snd kv) of
                    None \<Rightarrow> []
                  | Some t \<Rightarrow>
                      [QuoteJSONString (fst kv) @ '':'' @ (if gap = [] then [] else '' '') @ t])
          kvs)))"

text \<open>
  \<^verbatim>\<open>JSON.stringify(json, null, space)\<close> for a number \<open>space\<close>: the gap is that many
  blanks, ten at most.
\<close>

definition JSON_stringify :: "'n runtime \<Rightarrow> 'n jsval \<Rightarrow> nat \<Rightarrow> string option" where
  "JSON_stringify rt json space =
     SerializeJSONProperty (serializeNumber rt) (replicate (min 10 space) CHR '' '') [] json"

section \<open>Requests, responses and the server's state\<close>

text \<open>
  A connection is the pair of \<^verbatim>\<open>request\<close> and \<^verbatim>\<open>response\<close> objects that the HTTP module
  hands to the request handler: \<open>cid\<close> is the identity of the response object, \<open>url\<close> is
  \<^verbatim>\<open>request.url\<close> and \<open>origin\<close> is \<^verbatim>\<open>request.headers.origin\<close>, \<open>None\<close> when the header is
  absent.
\<close>

record conn =
  cid :: nat
  url :: string
  origin :: "string option"

record response =
  statusCode :: nat
  headers :: "string \<rightharpoonup> string"
  body :: string

text \<open>A response object as the handler receives it.\<close>

definition newResponse :: response where
  "newResponse = \<lparr>statusCode = 200, headers = Map.empty, body = []\<rparr>"

definition setHeader :: "string \<Rightarrow> string \<Rightarrow> response \<Rightarrow> response" where
  "setHeader name v r = r\<lparr>headers := (headers r)(name \<mapsto> v)\<rparr>"

text \<open>\<^verbatim>\<open>response.end(data)\<close>; with \<^verbatim>\<open>undefined\<close> nothing is written.\<close>

definition endWith :: "string option \<Rightarrow> response \<Rightarrow> response" where
  "endWith data r = r\<lparr>body := (case data of None \<Rightarrow> [] | Some t \<Rightarrow> t)\<rparr>"

text \<open>
  The module's variables \<^verbatim>\<open>lastFetchTimeMS\<close> and \<^verbatim>\<open>cachedStations\<close>, and what the program
  has done to the outside: \<open>inflight\<close> holds the callbacks handed to \<^verbatim>\<open>fetchStations\<close> whose
  upstream response has not ended (each is the same function text, closed over one
  connection), \<open>upstreamCalls\<close> counts the calls of \<^verbatim>\<open>https.get\<close>, \<open>sent\<close> lists the
  responses ended so far, and \<open>thrown\<close> the exceptions that left a handler uncaught.
\<close>

record 'n server =
  lastFetchTimeMS :: int
  cachedStations :: "'n jsval"
  inflight :: "conn list"
  upstreamCalls :: nat
  sent :: "(conn \<times> response) list"
  thrown :: "jerror list"

definition millis :: int where
  "millis = 1000"

definition refetchDelaySeconds :: int where
  "refetchDelaySeconds = 30"

definition initial :: "'n server" where
  "initial = \<lparr>lastFetchTimeMS = 0, cachedStations = JNull, inflight = [],
              upstreamCalls = 0, sent = [], thrown = []\<rparr>"

text \<open>\<^verbatim>\<open>function sendJsonResponse(request, response, json)\<close>.\<close>

definition jsonResponse :: "'n runtime \<Rightarrow> conn \<Rightarrow> 'n jsval \<Rightarrow> response" where
  "jsonResponse rt c json =
     endWith (JSON_stringify rt json 3)
       (setHeader ''Access-Control-Allow-Origin''
          (case origin c of None \<Rightarrow> ''*'' | Some v \<Rightarrow> if v = [] then ''*'' else v)
          (setHeader ''Content-Type'' ''application/json''
             (newResponse\<lparr>statusCode := 200\<rparr>)))"

definition sendJsonResponse :: "'n runtime \<Rightarrow> conn \<Rightarrow> 'n jsval \<Rightarrow> 'n server \<Rightarrow> 'n server" where
  "sendJsonResponse rt c json s = s\<lparr>sent := sent s @ [(c, jsonResponse rt c json)]\<rparr>"

text \<open>
  \<^verbatim>\<open>function fetchStations(callback)\<close>, up to the return of \<^verbatim>\<open>https.get\<close>: the request
  is on its way and the callback waits.
\<close>

definition fetchStations :: "conn \<Rightarrow> 'n server \<Rightarrow> 'n server" where
  "fetchStations c s = s\<lparr>inflight := inflight s @ [c], upstreamCalls := upstreamCalls s + 1\<rparr>"

text \<open>
  The \<^verbatim>\<open>end\<close> listener of the \<open>k\<close>-th waiting fetch, after the \<^verbatim>\<open>data\<close> listener has
  appended each chunk to \<^verbatim>\<open>body\<close>. The argument \<^verbatim>\<open>transformFeed(JSON.parse(body))\<close> is
  evaluated before the callback is called, so an exception of either leaves the listener
  with no assignment made.
\<close>

definition fetchStations_end :: "'n runtime \<Rightarrow> nat \<Rightarrow> string list \<Rightarrow> 'n server \<Rightarrow> 'n server" where
  "fetchStations_end rt k chunks s =
     (if k < length (inflight s) then
        (let c = inflight s ! k;
             s' = s\<lparr>inflight := take k (inflight s) @ drop (Suc k) (inflight s)\<rparr>;
             body = foldl (@) [] chunks
         in case JSON_parse rt body of
              Inl e \<Rightarrow> s'\<lparr>thrown := thrown s' @ [e]\<rparr>
            | Inr raw \<Rightarrow>
                (case transformFeed raw of
                   Inl e \<Rightarrow> s'\<lparr>thrown := thrown s' @ [e]\<rparr>
                 | Inr stations \<Rightarrow>
                     sendJsonResponse rt c stations (s'\<lparr>cachedStations := stations\<rparr>)))
      else s)"

text \<open>
  The \<open>k\<close>-th waiting fetch fails on the network. \<^verbatim>\<open>fetchStations\<close> registers no
  \<^verbatim>\<open>error\<close> listener, so no code of the program runs: the callback is dropped and the
  error is uncaught.
\<close>

definition fetchStations_error :: "nat \<Rightarrow> 'n server \<Rightarrow> 'n server" where
  "fetchStations_error k s =
     (if k < length (inflight s) then
        s\<lparr>inflight := take k (inflight s) @ drop (Suc k) (inflight s),
          thrown := thrown s @ [NetworkError]\<rparr>
      else s)"

text \<open>
  The request handler passed to \<^verbatim>\<open>http.createServer\<close>. \<open>nowMS\<close> is what \<^verbatim>\<open>now()\<close>
  returns for \<^verbatim>\<open>const nowMS = now()\<close>, and \<open>stamp\<close> what the second call returns, in
  \<^verbatim>\<open>lastFetchTimeMS = now()\<close>, which only the refetch branch makes.
\<close>

definition handler :: "'n runtime \<Rightarrow> conn \<Rightarrow> int \<Rightarrow> int \<Rightarrow> 'n server \<Rightarrow> 'n server" where
  "handler rt c nowMS stamp s =
     (if url c \<noteq> ''/'' then
        s\<lparr>sent := sent s @ [(c, endWith (Some ''NOT FOUND'') (newResponse\<lparr>statusCode := 404\<rparr>))]\<rparr>
      else if nowMS > lastFetchTimeMS s + refetchDelaySeconds * millis then
        (fetchStations c s)\<lparr>lastFetchTimeMS := stamp\<rparr>
      else sendJsonResponse rt c (cachedStations s) s)"

text \<open>
  What the event loop delivers to the program, and the listener it calls for each
  event.
\<close>

datatype event =
    Request conn int int
  | UpstreamEnd nat "string list"
  | UpstreamError nat

fun deliver :: "'n runtime \<Rightarrow> 'n server \<Rightarrow> event \<Rightarrow> 'n server" where
  "deliver rt s (Request c nowMS stamp) = handler rt c nowMS stamp s"
| "deliver rt s (UpstreamEnd k chunks) = fetchStations_end rt k chunks s"
| "deliver rt s (UpstreamError k) = fetchStations_error k s"

text \<open>
  The program has no \<^verbatim>\<open>try\<close>, no \<^verbatim>\<open>error\<close> listener and no handler for uncaught
  exceptions, so the first exception that leaves a listener ends the process: from then
  on no listener runs and the state stays as the exception left it.
\<close>

definition step :: "'n runtime \<Rightarrow> 'n server \<Rightarrow> event \<Rightarrow> 'n server" where
  "step rt s ev = (if thrown s = [] then deliver rt s ev else s)"

definition run :: "'n runtime \<Rightarrow> 'n server \<Rightarrow> event list \<Rightarrow> 'n server" where
  "run rt s evs = foldl (step rt) s evs"

section \<open>Example inputs\<close>

text \<open>
  A runtime whose numbers are their own decimal text and whose parser knows one feed,
  the one of the example scenario, and rejects every other text.
\<close>

definition exampleRuntime :: "string runtime" where
  "exampleRuntime = \<lparr>JSON_parse = (\<lambda>b.
       if b = ''{\"stationBeanList\":[{\"id\":1,\"longitude\":-122.4,\"latitude\":37.8}]}''
       then Inr (JObj [(''stationBeanList'', JArr [JObj [(''id'', JNum ''1''),
              (''longitude'', JNum ''-122.4''), (''latitude'', JNum ''37.8'')]])])
       else Inl SyntaxError), serializeNumber = (\<lambda>n. n)\<rparr>"

text \<open>A feed of two stations, the second of which is not an object.\<close>

definition exampleFeed :: "string jsval" where
  "exampleFeed = JObj [(''stationBeanList'',
      JArr [JObj [(''id'', JNum ''1''), (''longitude'', JNum ''-122.4''), (''latitude'', JNum ''37.8'')],
            JStr ''closed''])]"

text \<open>A request for the root url without an \<^verbatim>\<open>Origin\<close> header.\<close>

definition rootRequest :: "nat \<Rightarrow> conn" where
  "rootRequest n = \<lparr>cid = n, url = ''/'', origin = None\<rparr>"

text \<open>
  The server after one request of the root url has started the first fetch, whose
  upstream response has not ended.
\<close>

definition waitingForFirstFetch :: "string server" where
  "waitingForFirstFetch =
     handler exampleRuntime (rootRequest 0) 1700000000000 1700000000002 initial"

text \<open>A request of the root url whose \<^verbatim>\<open>Origin\<close> header is present and empty.\<close>

definition emptyOriginRequest :: conn where
  "emptyOriginRequest = \<lparr>cid = 1, url = ''/'', origin = Some []\<rparr>"

text \<open>
  The feed of the example scenario, as the two chunks in which it arrives, its one
  station, and the FeatureCollection made of it.
\<close>

definition exampleChunks :: "string list" where
  "exampleChunks = [''{\"stationBeanList\":[{\"id\":1,\"longitude\":-122.4,'',
                    ''\"latitude\":37.8}]}'']"

definition exampleStation :: "string jsval" where
  "exampleStation = JObj [(''id'', JNum ''1''), (''longitude'', JNum ''-122.4''),
                          (''latitude'', JNum ''37.8'')]"

definition exampleCollection :: "string jsval" where
  "exampleCollection =
     featureCollection [feature (JNum ''-122.4'') (JNum ''37.8'') exampleStation]"

section \<open>Completed fetches\<close>

text \<open>
  The collection that the callback of a fetch receives when the event completes the
  fetch: the process is alive, the event is the end of the response of a waiting fetch,
  and neither \<^verbatim>\<open>JSON.parse\<close> nor \<^verbatim>\<open>transformFeed\<close> throws on its body. The collections
  of the fetches that a run of events completes, in the order of their completion.
\<close>

fun completion :: "'n runtime \<Rightarrow> 'n server \<Rightarrow> event \<Rightarrow> 'n jsval option" where
  "completion rt s (UpstreamEnd k chunks) =
     (if thrown s = [] \<and> k < length (inflight s) then
        (case JSON_parse rt (foldl (@) [] chunks) of
           Inl e \<Rightarrow> None
         | Inr raw \<Rightarrow> (case transformFeed raw of Inl e \<Rightarrow> None | Inr stations \<Rightarrow> Some stations))
      else None)"
| "completion rt s (Request c nowMS stamp) = None"
| "completion rt s (UpstreamError k) = None"

fun fetched :: "'n runtime \<Rightarrow> 'n server \<Rightarrow> event list \<Rightarrow> 'n jsval list" where
  "fetched rt s [] = []"
| "fetched rt s (ev # evs) =
     (case completion rt s ev of None \<Rightarrow> [] | Some stations \<Rightarrow> [stations])
       @ fetched rt (step rt s ev) evs"

text \<open>
  After the events \<open>pre\<close>, the event \<open>ev\<close> sends the response \<open>r\<close> on the connection
  \<open>c\<close>, and \<open>r\<close> is the JSON response for the cache as \<open>ev\<close> leaves it.
\<close>

definition answeredAt ::
  "'n runtime \<Rightarrow> 'n server \<Rightarrow> event list \<Rightarrow> event \<Rightarrow> conn \<Rightarrow> response \<Rightarrow> bool" where
  "answeredAt rt s pre ev c r \<longleftrightarrow>
     sent (run rt s (pre @ [ev])) = sent (run rt s pre) @ [(c, r)]
   \<and> r = jsonResponse rt c (cachedStations (run rt s (pre @ [ev])))"

section \<open>Bursts of requests\<close>

text \<open>
  A request of the root url whose first reading of the clock is at most \<open>lim\<close>, and the
  answer such a request gets when it is served \<open>json\<close> from the cache.
\<close>

fun rootRequestBy :: "int \<Rightarrow> event \<Rightarrow> bool" where
  "rootRequestBy lim (Request c nowMS stamp) = (url c = ''/'' \<and> nowMS \<le> lim)"
| "rootRequestBy lim (UpstreamEnd k chunks) = False"
| "rootRequestBy lim (UpstreamError k) = False"

fun answerFrom :: "'n runtime \<Rightarrow> 'n jsval \<Rightarrow> event \<Rightarrow> (conn \<times> response) list" where
  "answerFrom rt json (Request c nowMS stamp) = [(c, jsonResponse rt c json)]"
| "answerFrom rt json (UpstreamEnd k chunks) = []"
| "answerFrom rt json (UpstreamError k) = []"

section \<open>Upstream failures\<close>

text \<open>
  The event \<open>ev\<close> is a failure of the \<open>k\<close>-th waiting fetch: the request fails on the
  network, or the response ends with a body on which \<^verbatim>\<open>JSON.parse\<close> or
  \<^verbatim>\<open>transformFeed\<close> throws.
\<close>

fun upstreamFailure :: "'n runtime \<Rightarrow> nat \<Rightarrow> event \<Rightarrow> bool" where
  "upstreamFailure rt k (UpstreamError j) = (j = k)"
| "upstreamFailure rt k (UpstreamEnd j chunks) =
     (j = k \<and>
      (case JSON_parse rt (foldl (@) [] chunks) of
         Inl e \<Rightarrow> True
       | Inr raw \<Rightarrow> (case transformFeed raw of Inl e \<Rightarrow> True | Inr stations \<Rightarrow> False)))"
| "upstreamFailure rt k (Request c nowMS stamp) = False"

text \<open>An upstream response that is no JSON, in two chunks.\<close>

definition badGateway :: event where
  "badGateway = UpstreamEnd 0 [''<html>502 Bad '', ''Gateway</html>'']"

text \<open>
  A runtime whose parser knows one feed, in which the station has neither
  \<^verbatim>\<open>longitude\<close> nor \<^verbatim>\<open>latitude\<close>; the end of an upstream response with that feed, and
  the collection \<^verbatim>\<open>transformFeed\<close> makes of it.
\<close>

definition mismatchRuntime :: "string runtime" where
  "mismatchRuntime = \<lparr>JSON_parse = (\<lambda>b.
       if b = ''{\"stationBeanList\":[{\"id\":1}]}''
       then Inr (JObj [(''stationBeanList'', JArr [JObj [(''id'', JNum ''1'')]])])
       else Inl SyntaxError), serializeNumber = (\<lambda>n. n)\<rparr>"

definition mismatchEnd :: event where
  "mismatchEnd = UpstreamEnd 0 [''{\"stationBeanList\":[{\"id\":1}]}'']"

definition mismatchCollection :: "string jsval" where
  "mismatchCollection =
     featureCollection [feature JUndefined JUndefined (JObj [(''id'', JNum ''1'')])]"

section \<open>The feed transformer on a store\<close>

text \<open>
  The values above identify an object with its contents. To state that the transformer
  changes no object and that two calls return distinct objects of the same structure,
  the transformer is modelled a second time on a store: a value is a primitive or the
  address of an object, and the store is the list of the objects allocated so far, the
  address being the position. An allocation appends.
\<close>

datatype 'n hval =
    HUndefined
  | HNull
  | HBool bool
  | HNum 'n
  | HStr string
  | HRef nat

datatype 'n hobj =
    HArr "'n hval list"
  | HObj "(string \<times> 'n hval) list"

type_synonym 'n heap = "'n hobj list"

text \<open>
  A value lies below \<open>n\<close> when it is no address or an address smaller than \<open>n\<close>. A store
  is ordered when every object refers to objects allocated before it only, as the
  objects that \<^verbatim>\<open>JSON.parse\<close> and object literals build do: there are no cycles.
\<close>

fun refsBelow :: "nat \<Rightarrow> 'n hval \<Rightarrow> bool" where
  "refsBelow n (HRef a) = (a < n)"
| "refsBelow n v = True"

fun members :: "'n hobj \<Rightarrow> 'n hval list" where
  "members (HArr xs) = xs"
| "members (HObj kvs) = map snd kvs"

definition ordered :: "'n heap \<Rightarrow> bool" where
  "ordered h \<longleftrightarrow> (\<forall>a < length h. \<forall>v \<in> set (members (h ! a)). refsBelow a v)"

text \<open>
  The structure of a value in a store, as a value of the first model. An object at
  address \<open>a\<close> is read in the store as it was when the object was allocated; an address
  outside the store reads as \<^verbatim>\<open>undefined\<close>.
\<close>

function denote :: "'n heap \<Rightarrow> 'n hval \<Rightarrow> 'n jsval" where
  "denote h HUndefined = JUndefined"
| "denote h HNull = JNull"
| "denote h (HBool b) = JBool b"
| "denote h (HNum n) = JNum n"
| "denote h (HStr s) = JStr s"
| "denote h (HRef a) =
     (if a < length h then
        (case h ! a of
           HArr xs \<Rightarrow> JArr (map (denote (take a h)) xs)
         | HObj kvs \<Rightarrow> JObj (map (\<lambda>kv. (fst kv, denote (take a h) (snd kv))) kvs))
      else JUndefined)"
  by pat_completeness auto
termination
  by (relation "measure (\<lambda>(h, v). length h)") auto

text \<open>The property read \<^verbatim>\<open>v.k\<close> in a store, for the keys the program reads.\<close>

definition getPropIn :: "'n heap \<Rightarrow> 'n hval \<Rightarrow> string \<Rightarrow> jerror + 'n hval" where
  "getPropIn h v k =
     (case v of
        HUndefined \<Rightarrow> Inl TypeError
      | HNull \<Rightarrow> Inl TypeError
      | HRef a \<Rightarrow>
          (if a < length h then
             (case h ! a of
                HObj kvs \<Rightarrow> Inr (case map_of kvs k of None \<Rightarrow> HUndefined | Some w \<Rightarrow> w)
              | HArr xs \<Rightarrow> Inr HUndefined)
           else Inl TypeError)
      | _ \<Rightarrow> Inr HUndefined)"

text \<open>
  \<^verbatim>\<open>transformStation\<close> in a store: the three object literals are allocated, the
  coordinates array, the geometry and the Feature, whose \<^verbatim>\<open>properties\<close> is the address of
  the station itself, not a copy. The inner literal gets the lower address; which of them
  JavaScript allocates first cannot be observed.
\<close>

definition transformStationIn :: "'n hval \<Rightarrow> 'n heap \<Rightarrow> jerror + ('n hval \<times> 'n heap)" where
  "transformStationIn station h =
     (case getPropIn h station ''longitude'' of
        Inl e \<Rightarrow> Inl e
      | Inr lon \<Rightarrow>
          (case getPropIn h station ''latitude'' of
             Inl e \<Rightarrow> Inl e
           | Inr lat \<Rightarrow>
               Inr (HRef (length h + 2),
                    h @ [HArr [lon, lat],
                         HObj [(''type'', HStr ''Point''), (''coordinates'', HRef (length h))],
                         HObj [(''type'', HStr ''Feature''),
                               (''geometry'', HRef (length h + 1)),
                               (''properties'', station)]])))"

text \<open>\<^verbatim>\<open>xs.map(f)\<close> in a store: the callback's allocations are threaded through the loop.\<close>

fun mapThrowingIn :: "('a \<Rightarrow> 'h \<Rightarrow> jerror + ('b \<times> 'h)) \<Rightarrow> 'a list \<Rightarrow> 'h \<Rightarrow> jerror + ('b list \<times> 'h)" where
  "mapThrowingIn f [] h = Inr ([], h)"
| "mapThrowingIn f (x # xs) h =
     (case f x h of
        Inl e \<Rightarrow> Inl e
      | Inr (y, h') \<Rightarrow>
          (case mapThrowingIn f xs h' of
             Inl e \<Rightarrow> Inl e
           | Inr (ys, h'') \<Rightarrow> Inr (y # ys, h'')))"

definition callMapIn ::
  "'n hval \<Rightarrow> ('n hval \<Rightarrow> 'n heap \<Rightarrow> jerror + ('n hval \<times> 'n heap)) \<Rightarrow> 'n heap
     \<Rightarrow> jerror + ('n hval \<times> 'n heap)" where
  "callMapIn v f h =
     (case v of
        HRef a \<Rightarrow>
          (if a < length h then
             (case h ! a of
                HArr xs \<Rightarrow>
                  (case mapThrowingIn f xs h of
                     Inl e \<Rightarrow> Inl e
                   | Inr (ys, h') \<Rightarrow> Inr (HRef (length h'), h' @ [HArr ys]))
              | HObj kvs \<Rightarrow> Inl TypeError)
           else Inl TypeError)
      | _ \<Rightarrow> Inl TypeError)"

text \<open>\<^verbatim>\<open>transformFeed\<close> in a store.\<close>

definition transformFeedIn :: "'n hval \<Rightarrow> 'n heap \<Rightarrow> jerror + ('n hval \<times> 'n heap)" where
  "transformFeedIn stationFeedData h =
     (case getPropIn h stationFeedData ''stationBeanList'' of
        Inl e \<Rightarrow> Inl e
      | Inr beans \<Rightarrow>
          (case callMapIn beans transformStationIn h of
             Inl e \<Rightarrow> Inl e
           | Inr (features, h') \<Rightarrow>
               Inr (HRef (length h'),
                    h' @ [HObj [(''type'', HStr ''FeatureCollection''),
                                (''features'', features)]])))"

text \<open>
  The store after \<^verbatim>\<open>JSON.parse\<close> of the example feed (the feed is at address 2), and
  the store after \<^verbatim>\<open>transformFeed\<close> has run on it.
\<close>

definition exampleHeap :: "string heap" where
  "exampleHeap =
     [HObj [(''id'', HNum ''1''), (''longitude'', HNum ''-122.4''), (''latitude'', HNum ''37.8'')],
      HArr [HRef 0],
      HObj [(''stationBeanList'', HRef 1)]]"

definition exampleHeapAfter :: "string heap" where
  "exampleHeapAfter = exampleHeap @
     [HArr [HNum ''-122.4'', HNum ''37.8''],
      HObj [(''type'', HStr ''Point''), (''coordinates'', HRef 3)],
      HObj [(''type'', HStr ''Feature''), (''geometry'', HRef 4), (''properties'', HRef 0)],
      HArr [HRef 5],
      HObj [(''type'', HStr ''FeatureCollection''), (''features'', HRef 6)]]"

section \<open>The feed transformer: order, shape and failure\<close>

lemma mapThrowing_Inr:
  "mapThrowing f xs = Inr ys \<Longrightarrow>
     length ys = length xs \<and> (\<forall>i < length xs. f (xs ! i) = Inr (ys ! i))"
proof (induction xs arbitrary: ys)
  case Nil
  then show ?case by simp
next
  case (Cons x xs)
  then show ?case
    by (auto simp: nth_Cons split: sum.splits nat.splits)
qed

lemma mapThrowing_Inl:
  "(\<exists>e. mapThrowing f xs = Inl e) \<longleftrightarrow> (\<exists>x \<in> set xs. \<exists>e. f x = Inl e)"
  by (induction xs) (auto split: sum.splits)

lemma mapThrowing_total:
  "\<forall>x \<in> set xs. \<exists>y. f x = Inr y \<Longrightarrow> \<exists>ys. mapThrowing f xs = Inr ys"
  by (induction xs) auto

lemma getProp_Inl: "(\<exists>e. getProp v k = Inl e) \<longleftrightarrow> v = JNull \<or> v = JUndefined"
  by (cases v) auto

lemma transformStation_Inl:
  "(\<exists>e. transformStation v = Inl e) \<longleftrightarrow> v = JNull \<or> v = JUndefined"
  by (cases v) (auto simp: transformStation_def)

lemma transformStation_Inr:
  "transformStation v = Inr f \<Longrightarrow>
     \<exists>lon lat. getProp v ''longitude'' = Inr lon \<and> getProp v ''latitude'' = Inr lat
        \<and> f = feature lon lat v"
  by (auto simp: transformStation_def feature_def split: sum.splits)

lemma transformStation_defined:
  "v \<noteq> JNull \<Longrightarrow> v \<noteq> JUndefined \<Longrightarrow> \<exists>y. transformStation v = Inr y"
  by (cases v) (simp_all add: transformStation_def)

lemma transformFeed_array:
  "getProp raw ''stationBeanList'' = Inr (JArr stations) \<Longrightarrow>
   transformFeed raw =
     (case mapThrowing transformStation stations of
        Inl e \<Rightarrow> Inl e | Inr fs \<Rightarrow> Inr (featureCollection fs))"
  by (simp add: transformFeed_def featureCollection_def split: sum.splits)

lemma transformFeed_not_array:
  "\<forall>stations. getProp raw ''stationBeanList'' \<noteq> Inr (JArr stations) \<Longrightarrow>
   \<exists>e. transformFeed raw = Inl e"
proof (cases "getProp raw ''stationBeanList''")
  case (Inl e)
  then show ?thesis by (simp add: transformFeed_def)
next
  case (Inr beans)
  assume "\<forall>stations. getProp raw ''stationBeanList'' \<noteq> Inr (JArr stations)"
  with Inr have "\<forall>stations. beans \<noteq> JArr stations" by simp
  then have "callMap beans transformStation = Inl TypeError"
    by (cases beans) simp_all
  with Inr show ?thesis by (simp add: transformFeed_def)
qed

text \<open>
  C4. When the raw feed has a \<^verbatim>\<open>stationBeanList\<close> array whose stations can be read (none
  is \<^verbatim>\<open>null\<close> or \<^verbatim>\<open>undefined\<close>), \<^verbatim>\<open>transformFeed\<close> returns a FeatureCollection with
  one Feature per station, in the order of the stations: the \<open>i\<close>-th Feature has the
  coordinates \<^verbatim>\<open>[station.longitude, station.latitude]\<close> of the \<open>i\<close>-th station and that
  station, unchanged, as its properties.
\<close>

theorem transformFeed_order_shape:
  assumes beans: "getProp raw ''stationBeanList'' = Inr (JArr stations)"
    and objs: "\<forall>st \<in> set stations. st \<noteq> JNull \<and> st \<noteq> JUndefined"
  shows "\<exists>fs. transformFeed raw = Inr (featureCollection fs)
           \<and> length fs = length stations
           \<and> (\<forall>i < length stations. \<exists>lon lat.
                 getProp (stations ! i) ''longitude'' = Inr lon
               \<and> getProp (stations ! i) ''latitude'' = Inr lat
               \<and> fs ! i = feature lon lat (stations ! i))"
proof -
  have "\<forall>st \<in> set stations. \<exists>y. transformStation st = Inr y"
    using objs transformStation_defined by blast
  then obtain fs where fs: "mapThrowing transformStation stations = Inr fs"
    using mapThrowing_total by blast
  have len: "length fs = length stations"
    using mapThrowing_Inr [OF fs] by simp
  have each: "\<And>i. i < length stations \<Longrightarrow> transformStation (stations ! i) = Inr (fs ! i)"
    using mapThrowing_Inr [OF fs] by simp
  have res: "transformFeed raw = Inr (featureCollection fs)"
    using fs by (simp add: transformFeed_array [OF beans])
  have shape: "\<forall>i < length stations. \<exists>lon lat.
                 getProp (stations ! i) ''longitude'' = Inr lon
               \<and> getProp (stations ! i) ''latitude'' = Inr lat
               \<and> fs ! i = feature lon lat (stations ! i)"
  proof (intro allI impI)
    fix i assume "i < length stations"
    then show "\<exists>lon lat.
                 getProp (stations ! i) ''longitude'' = Inr lon
               \<and> getProp (stations ! i) ''latitude'' = Inr lat
               \<and> fs ! i = feature lon lat (stations ! i)"
      using each [of i] transformStation_Inr [of "stations ! i" "fs ! i"] by simp
  qed
  from res len shape show ?thesis by (intro exI [of _ fs] conjI)
qed

theorem transformFeed_order_shape_witness:
  "\<exists>fs. transformFeed exampleFeed = Inr (featureCollection fs) \<and> length fs = 2
     \<and> fs ! 0 = feature (JNum ''-122.4'') (JNum ''37.8'')
          (JObj [(''id'', JNum ''1''), (''longitude'', JNum ''-122.4''), (''latitude'', JNum ''37.8'')])
     \<and> fs ! 1 = feature JUndefined JUndefined (JStr ''closed'')"
proof -
  let ?s0 = "JObj [(''id'', JNum ''1''), (''longitude'', JNum ''-122.4''), (''latitude'', JNum ''37.8'')] :: string jsval"
  let ?s1 = "JStr ''closed'' :: string jsval"
  have a: "getProp exampleFeed ''stationBeanList'' = Inr (JArr [?s0, ?s1])"
    by (simp add: exampleFeed_def)
  have b: "\<forall>st \<in> set [?s0, ?s1]. st \<noteq> JNull \<and> st \<noteq> JUndefined"
    by simp
  from transformFeed_order_shape [OF a b] obtain fs where
    res: "transformFeed exampleFeed = Inr (featureCollection fs)"
    and len: "length fs = length [?s0, ?s1]"
    and shape: "\<forall>i < length [?s0, ?s1]. \<exists>lon lat.
                 getProp ([?s0, ?s1] ! i) ''longitude'' = Inr lon
               \<and> getProp ([?s0, ?s1] ! i) ''latitude'' = Inr lat
               \<and> fs ! i = feature lon lat ([?s0, ?s1] ! i)"
    by blast
  have "0 < length [?s0, ?s1]" by simp
  with shape have "\<exists>lon lat.
                 getProp ([?s0, ?s1] ! 0) ''longitude'' = Inr lon
               \<and> getProp ([?s0, ?s1] ! 0) ''latitude'' = Inr lat
               \<and> fs ! 0 = feature lon lat ([?s0, ?s1] ! 0)" by blast
  then have f0: "fs ! 0 = feature (JNum ''-122.4'') (JNum ''37.8'') ?s0" by simp
  have "1 < length [?s0, ?s1]" by simp
  with shape have "\<exists>lon lat.
                 getProp ([?s0, ?s1] ! 1) ''longitude'' = Inr lon
               \<and> getProp ([?s0, ?s1] ! 1) ''latitude'' = Inr lat
               \<and> fs ! 1 = feature lon lat ([?s0, ?s1] ! 1)" by blast
  then have f1: "fs ! 1 = feature JUndefined JUndefined ?s1" by simp
  from len have len2: "length fs = 2" by simp
  from res len2 f0 f1 show ?thesis by (intro exI [of _ fs] conjI)
qed

lemma getProp_error: "getProp v k = Inl e \<Longrightarrow> e = TypeError"
  by (cases v) simp_all

lemma transformStation_error: "transformStation v = Inl e \<Longrightarrow> e = TypeError"
  by (cases v) (simp_all add: transformStation_def)

lemma mapThrowing_error:
  "mapThrowing f xs = Inl e \<Longrightarrow> \<exists>x \<in> set xs. f x = Inl e"
proof (induction xs)
  case Nil
  then show ?case by simp
next
  case (Cons x xs)
  show ?case
  proof (cases "f x")
    case (Inl e')
    with Cons.prems show ?thesis by simp
  next
    case (Inr y)
    with Cons.prems have "mapThrowing f xs = Inl e"
      by (cases "mapThrowing f xs") simp_all
    with Cons.IH show ?thesis by simp
  qed
qed

lemma callMap_error: "callMap v transformStation = Inl e \<Longrightarrow> e = TypeError"
proof (cases v)
  case (JArr xs)
  assume "callMap v transformStation = Inl e"
  with JArr have "mapThrowing transformStation xs = Inl e"
    by (cases "mapThrowing transformStation xs") simp_all
  then show ?thesis using mapThrowing_error transformStation_error by blast
qed simp_all

lemma transformFeed_error: "transformFeed raw = Inl e \<Longrightarrow> e = TypeError"
proof (cases "getProp raw ''stationBeanList''")
  case (Inl e')
  assume "transformFeed raw = Inl e"
  with Inl have "e' = e" by (simp add: transformFeed_def)
  with Inl show ?thesis using getProp_error by blast
next
  case (Inr beans)
  assume a: "transformFeed raw = Inl e"
  with Inr have "callMap beans transformStation = Inl e"
    by (cases "callMap beans transformStation") (simp_all add: transformFeed_def)
  then show ?thesis by (rule callMap_error)
qed

text \<open>
  C5, as the claim states it, fails: a station without \<^verbatim>\<open>longitude\<close> and \<^verbatim>\<open>latitude\<close>
  does not make \<^verbatim>\<open>transformFeed\<close> throw. The read of a missing property is
  \<^verbatim>\<open>undefined\<close>, and the Feature is built with the coordinates
  \<^verbatim>\<open>[undefined, undefined]\<close>.
\<close>

theorem transformFeed_missing_coordinates_counterexample:
  "transformFeed (JObj [(''stationBeanList'', JArr [JObj [(''id'', JNum (1::int))]])])
     = Inr (featureCollection [feature JUndefined JUndefined (JObj [(''id'', JNum 1)])])"
  by (simp add: transformFeed_def transformStation_def featureCollection_def feature_def)

text \<open>
  C5, amended. \<^verbatim>\<open>transformFeed(raw)\<close> throws, and what it throws is a TypeError, exactly
  when \<^verbatim>\<open>raw.stationBeanList\<close> cannot be read or is not an array, or a station of the
  array is \<^verbatim>\<open>null\<close> or \<^verbatim>\<open>undefined\<close>; in every other case it returns a
  FeatureCollection, whatever the stations hold as coordinates.
\<close>

theorem transformFeed_fails_iff:
  "(transformFeed raw = Inl TypeError \<longleftrightarrow>
      \<not> (\<exists>stations. getProp raw ''stationBeanList'' = Inr (JArr stations)
             \<and> JNull \<notin> set stations \<and> JUndefined \<notin> set stations))
   \<and> ((\<exists>fs. transformFeed raw = Inr (featureCollection fs)) \<longleftrightarrow>
      (\<exists>stations. getProp raw ''stationBeanList'' = Inr (JArr stations)
             \<and> JNull \<notin> set stations \<and> JUndefined \<notin> set stations))"
proof (cases "\<exists>stations. getProp raw ''stationBeanList'' = Inr (JArr stations)
             \<and> JNull \<notin> set stations \<and> JUndefined \<notin> set stations")
  case True
  then obtain stations where beans: "getProp raw ''stationBeanList'' = Inr (JArr stations)"
    and clean: "JNull \<notin> set stations" "JUndefined \<notin> set stations" by blast
  have "\<forall>st \<in> set stations. \<exists>y. transformStation st = Inr y"
    using clean transformStation_defined by metis
  then obtain fs where "mapThrowing transformStation stations = Inr fs"
    using mapThrowing_total by blast
  then have "transformFeed raw = Inr (featureCollection fs)"
    by (simp add: transformFeed_array [OF beans])
  with True show ?thesis by auto
next
  case False
  have "\<exists>e. transformFeed raw = Inl e"
  proof (cases "\<exists>stations. getProp raw ''stationBeanList'' = Inr (JArr stations)")
    case no: False
    then show ?thesis using transformFeed_not_array by blast
  next
    case True
    then obtain stations where beans: "getProp raw ''stationBeanList'' = Inr (JArr stations)"
      by blast
    with False have "JNull \<in> set stations \<or> JUndefined \<in> set stations" by blast
    then have "\<exists>x \<in> set stations. \<exists>e. transformStation x = Inl e"
      using transformStation_Inl by blast
    then obtain e where "mapThrowing transformStation stations = Inl e"
      using mapThrowing_Inl [of transformStation stations] by blast
    then show ?thesis by (simp add: transformFeed_array [OF beans])
  qed
  then obtain e where e: "transformFeed raw = Inl e" by blast
  then have "transformFeed raw = Inl TypeError" using transformFeed_error by blast
  with False show ?thesis by simp
qed

theorem transformFeed_fails_iff_witness:
  "transformFeed (JObj [(''stations'', JArr [])] :: int jsval) = Inl TypeError
   \<and> transformFeed (JObj [(''stationBeanList'', JArr [JNull])] :: int jsval) = Inl TypeError
   \<and> (\<exists>fs. transformFeed (JObj [(''stationBeanList'', JArr [JNum (7::int)])]) = Inr (featureCollection fs))"
proof -
  have 1: "\<not> (\<exists>stations. getProp (JObj [(''stations'', JArr [])] :: int jsval) ''stationBeanList'' = Inr (JArr stations)
             \<and> JNull \<notin> set stations \<and> JUndefined \<notin> set stations)"
    by simp
  have 2: "\<not> (\<exists>stations. getProp (JObj [(''stationBeanList'', JArr [JNull])] :: int jsval) ''stationBeanList'' = Inr (JArr stations)
             \<and> JNull \<notin> set stations \<and> JUndefined \<notin> set stations)"
    by auto
  have 3: "\<exists>stations. getProp (JObj [(''stationBeanList'', JArr [JNum (7::int)])]) ''stationBeanList'' = Inr (JArr stations)
             \<and> JNull \<notin> set stations \<and> JUndefined \<notin> set stations"
    by simp
  show ?thesis
    using 1 2 3
      transformFeed_fails_iff [of "JObj [(''stations'', JArr [])] :: int jsval"]
      transformFeed_fails_iff [of "JObj [(''stationBeanList'', JArr [JNull])] :: int jsval"]
      transformFeed_fails_iff [of "JObj [(''stationBeanList'', JArr [JNum (7::int)])]"]
    by blast
qed

section \<open>The request handler\<close>

lemma refetchInterval: "refetchDelaySeconds * millis = 30000"
  by (simp add: refetchDelaySeconds_def millis_def)

lemma handler_stale:
  "url c = ''/'' \<Longrightarrow> lastFetchTimeMS s + 30000 < nowMS \<Longrightarrow>
   handler rt c nowMS stamp s = (fetchStations c s)\<lparr>lastFetchTimeMS := stamp\<rparr>"
  by (simp add: handler_def refetchInterval)

lemma handler_fresh:
  "url c = ''/'' \<Longrightarrow> nowMS \<le> lastFetchTimeMS s + 30000 \<Longrightarrow>
   handler rt c nowMS stamp s = sendJsonResponse rt c (cachedStations s) s"
  by (simp add: handler_def refetchInterval)

lemma handler_other:
  "url c \<noteq> ''/'' \<Longrightarrow>
   handler rt c nowMS stamp s =
     s\<lparr>sent := sent s @ [(c, \<lparr>statusCode = 404, headers = Map.empty, body = ''NOT FOUND''\<rparr>)]\<rparr>"
  by (simp add: handler_def endWith_def newResponse_def)

text \<open>
  C2. For a request of the root url the refetch is started, and \<^verbatim>\<open>https.get\<close> called
  once more, if and only if \<open>nowMS\<close> is strictly greater than \<^verbatim>\<open>lastFetchTimeMS\<close> plus
  30000, the product of \<^verbatim>\<open>refetchDelaySeconds\<close> and \<^verbatim>\<open>millis\<close>. At exactly
  \<^verbatim>\<open>lastFetchTimeMS + 30000\<close> no fetch is started, at \<^verbatim>\<open>lastFetchTimeMS + 30001\<close> one
  is, and with \<^verbatim>\<open>lastFetchTimeMS\<close> still 0 every \<open>nowMS\<close> above 30000 starts one.
\<close>

theorem staleness_strict:
  assumes "url c = ''/''"
  shows "refetchDelaySeconds * millis = 30000
    \<and> (upstreamCalls (handler rt c nowMS stamp s) = upstreamCalls s + 1
          \<longleftrightarrow> nowMS > lastFetchTimeMS s + 30000)
    \<and> (upstreamCalls (handler rt c nowMS stamp s) = upstreamCalls s
          \<longleftrightarrow> nowMS \<le> lastFetchTimeMS s + 30000)
    \<and> upstreamCalls (handler rt c (lastFetchTimeMS s + 30000) stamp s) = upstreamCalls s
    \<and> upstreamCalls (handler rt c (lastFetchTimeMS s + 30001) stamp s) = upstreamCalls s + 1
    \<and> (lastFetchTimeMS s = 0 \<and> nowMS > 30000
          \<longrightarrow> upstreamCalls (handler rt c nowMS stamp s) = upstreamCalls s + 1)"
proof -
  have stale: "\<And>t. lastFetchTimeMS s + 30000 < t \<Longrightarrow>
      upstreamCalls (handler rt c t stamp s) = upstreamCalls s + 1"
    using assms by (simp add: handler_stale fetchStations_def)
  have fresh: "\<And>t. t \<le> lastFetchTimeMS s + 30000 \<Longrightarrow>
      upstreamCalls (handler rt c t stamp s) = upstreamCalls s"
    using assms by (simp add: handler_fresh sendJsonResponse_def)
  have a: "upstreamCalls (handler rt c nowMS stamp s) = upstreamCalls s + 1
          \<longleftrightarrow> nowMS > lastFetchTimeMS s + 30000"
    using stale [of nowMS] fresh [of nowMS] by (cases "lastFetchTimeMS s + 30000 < nowMS") simp_all
  have b: "upstreamCalls (handler rt c nowMS stamp s) = upstreamCalls s
          \<longleftrightarrow> nowMS \<le> lastFetchTimeMS s + 30000"
    using stale [of nowMS] fresh [of nowMS] by (cases "lastFetchTimeMS s + 30000 < nowMS") simp_all
  have c: "upstreamCalls (handler rt c (lastFetchTimeMS s + 30000) stamp s) = upstreamCalls s"
    using fresh [of "lastFetchTimeMS s + 30000"] by simp
  have d: "upstreamCalls (handler rt c (lastFetchTimeMS s + 30001) stamp s) = upstreamCalls s + 1"
    using stale [of "lastFetchTimeMS s + 30001"] by simp
  have e: "lastFetchTimeMS s = 0 \<and> nowMS > 30000
          \<longrightarrow> upstreamCalls (handler rt c nowMS stamp s) = upstreamCalls s + 1"
    using stale [of nowMS] by simp
  from refetchInterval a b c d e show ?thesis by blast
qed

theorem staleness_strict_witness:
  "url (rootRequest 0) = ''/''
   \<and> upstreamCalls (handler exampleRuntime (rootRequest 0) 30001 30002 initial) = 1
   \<and> upstreamCalls (handler exampleRuntime (rootRequest 0) 30000 30002 initial) = 0"
proof -
  have u: "url (rootRequest 0) = ''/''" by (simp add: rootRequest_def)
  have l: "lastFetchTimeMS (initial :: string server) = 0"
    and n: "upstreamCalls (initial :: string server) = 0"
    by (simp_all add: initial_def)
  from staleness_strict [OF u, of exampleRuntime 30001 30002 initial]
       staleness_strict [OF u, of exampleRuntime 30000 30002 initial] u l n
  show ?thesis by simp
qed

text \<open>
  C7. A request whose url is not exactly \<^verbatim>\<open>/\<close> is answered with status 404 and the body
  \<^verbatim>\<open>NOT FOUND\<close>; no fetch is started, no callback is left waiting, and
  \<^verbatim>\<open>lastFetchTimeMS\<close> and \<^verbatim>\<open>cachedStations\<close> keep their values.
\<close>

theorem unknown_route:
  assumes "url c \<noteq> ''/''"
  shows "sent (handler rt c nowMS stamp s) =
           sent s @ [(c, \<lparr>statusCode = 404, headers = Map.empty, body = ''NOT FOUND''\<rparr>)]
    \<and> upstreamCalls (handler rt c nowMS stamp s) = upstreamCalls s
    \<and> inflight (handler rt c nowMS stamp s) = inflight s
    \<and> lastFetchTimeMS (handler rt c nowMS stamp s) = lastFetchTimeMS s
    \<and> cachedStations (handler rt c nowMS stamp s) = cachedStations s
    \<and> thrown (handler rt c nowMS stamp s) = thrown s"
  by (simp add: handler_other [OF assms])

theorem unknown_route_witness:
  "url \<lparr>cid = 0, url = ''/other'', origin = None\<rparr> \<noteq> ''/''
   \<and> handler exampleRuntime \<lparr>cid = 0, url = ''/other'', origin = None\<rparr> 40000 40001 initial
     = initial\<lparr>sent := [(\<lparr>cid = 0, url = ''/other'', origin = None\<rparr>,
                 \<lparr>statusCode = 404, headers = Map.empty, body = ''NOT FOUND''\<rparr>)]\<rparr>"
proof -
  have u: "url \<lparr>cid = 0, url = ''/other'', origin = None\<rparr> \<noteq> ''/''" by simp
  from unknown_route [OF u, of exampleRuntime 40000 40001 initial] u
  show ?thesis by (simp add: initial_def)
qed

lemma jsonResponse_status: "statusCode (jsonResponse rt c json) = 200"
  by (simp add: jsonResponse_def endWith_def setHeader_def newResponse_def)

lemma jsonResponse_contentType:
  "headers (jsonResponse rt c json) ''Content-Type'' = Some ''application/json''"
  by (simp add: jsonResponse_def endWith_def setHeader_def newResponse_def)

lemma jsonResponse_allowOrigin:
  "headers (jsonResponse rt c json) ''Access-Control-Allow-Origin'' =
     Some (case origin c of None \<Rightarrow> ''*'' | Some v \<Rightarrow> if v = [] then ''*'' else v)"
  by (simp add: jsonResponse_def endWith_def setHeader_def newResponse_def)

lemma jsonResponse_body:
  "body (jsonResponse rt c json) = (case JSON_stringify rt json 3 of None \<Rightarrow> [] | Some t \<Rightarrow> t)"
  by (simp add: jsonResponse_def endWith_def setHeader_def newResponse_def)

lemma stringify_null: "JSON_stringify rt JNull n = Some ''null''"
  by (simp add: JSON_stringify_def)

lemma waitingForFirstFetch_eq:
  "waitingForFirstFetch = \<lparr>lastFetchTimeMS = 1700000000002, cachedStations = JNull,
      inflight = [rootRequest 0], upstreamCalls = 1, sent = [], thrown = []\<rparr>"
  by (simp add: waitingForFirstFetch_def handler_def rootRequest_def initial_def
      refetchInterval fetchStations_def)

text \<open>
  C10. A request of the root url that needs no refetch while \<^verbatim>\<open>cachedStations\<close> is still
  \<^verbatim>\<open>null\<close> is answered at once with status 200, the content type
  \<^verbatim>\<open>application/json\<close> and the body \<^verbatim>\<open>null\<close>.
\<close>

theorem fresh_before_first_fetch:
  assumes "url c = ''/''"
    and "nowMS \<le> lastFetchTimeMS s + 30000"
    and "cachedStations s = JNull"
  shows "\<exists>r. sent (handler rt c nowMS stamp s) = sent s @ [(c, r)]
           \<and> statusCode r = 200
           \<and> headers r ''Content-Type'' = Some ''application/json''
           \<and> body r = ''null''"
proof -
  let ?r = "jsonResponse rt c JNull"
  have "sent (handler rt c nowMS stamp s) = sent s @ [(c, ?r)]"
    using assms by (simp add: handler_fresh sendJsonResponse_def)
  moreover have "body ?r = ''null''"
    by (simp add: jsonResponse_body stringify_null)
  ultimately show ?thesis
    using jsonResponse_status [of rt c JNull] jsonResponse_contentType [of rt c JNull]
    by blast
qed

theorem fresh_before_first_fetch_witness:
  "url (rootRequest 1) = ''/''
   \<and> 1700000000005 \<le> lastFetchTimeMS waitingForFirstFetch + 30000
   \<and> cachedStations waitingForFirstFetch = JNull
   \<and> (\<exists>r. sent (handler exampleRuntime (rootRequest 1) 1700000000005 1700000000006
                  waitingForFirstFetch) = [(rootRequest 1, r)]
          \<and> statusCode r = 200
          \<and> headers r ''Content-Type'' = Some ''application/json''
          \<and> body r = ''null'')"
proof -
  have u: "url (rootRequest 1) = ''/''" by (simp add: rootRequest_def)
  have t: "1700000000005 \<le> lastFetchTimeMS waitingForFirstFetch + 30000"
    by (simp add: waitingForFirstFetch_eq)
  have n: "cachedStations waitingForFirstFetch = JNull"
    by (simp add: waitingForFirstFetch_eq)
  have e: "sent waitingForFirstFetch = []"
    by (simp add: waitingForFirstFetch_eq)
  from fresh_before_first_fetch [OF u t n, of exampleRuntime 1700000000006] u t n e
  show ?thesis by simp
qed

text \<open>
  C1, as the claim states it, fails: the timestamp stored is not the \<open>nowMS\<close> that was
  compared with the threshold. The handler calls \<^verbatim>\<open>now()\<close> a second time, after
  \<^verbatim>\<open>fetchStations\<close> has returned, and stores that reading: compared 40000, stored 40001.
\<close>

theorem stamp_is_second_reading_counterexample:
  "url (rootRequest 0) = ''/''
   \<and> lastFetchTimeMS (initial :: string server) + refetchDelaySeconds * millis < 40000
   \<and> lastFetchTimeMS (handler exampleRuntime (rootRequest 0) 40000 40001 initial) \<noteq> 40000"
  by (simp add: handler_def rootRequest_def initial_def refetchInterval fetchStations_def)

text \<open>
  C1, amended. In the refetch branch the handler sets \<^verbatim>\<open>lastFetchTimeMS\<close> within the
  same run, while the callback of the fetch still waits and nothing has been sent or
  cached, to the second reading of the clock; the stored timestamp is \<open>nowMS\<close> exactly
  when the two readings agree.
\<close>

theorem stamp_at_decision_time:
  assumes "url c = ''/''"
    and "nowMS > lastFetchTimeMS s + 30000"
  shows "lastFetchTimeMS (handler rt c nowMS stamp s) = stamp
    \<and> (lastFetchTimeMS (handler rt c nowMS stamp s) = nowMS \<longleftrightarrow> stamp = nowMS)
    \<and> inflight (handler rt c nowMS stamp s) = inflight s @ [c]
    \<and> upstreamCalls (handler rt c nowMS stamp s) = upstreamCalls s + 1
    \<and> sent (handler rt c nowMS stamp s) = sent s
    \<and> cachedStations (handler rt c nowMS stamp s) = cachedStations s"
  using assms by (simp add: handler_stale fetchStations_def)

theorem stamp_at_decision_time_witness:
  "url (rootRequest 0) = ''/''
   \<and> 40000 > lastFetchTimeMS (initial :: string server) + 30000
   \<and> lastFetchTimeMS (handler exampleRuntime (rootRequest 0) 40000 40001 initial) = 40001
   \<and> inflight (handler exampleRuntime (rootRequest 0) 40000 40001 initial) = [rootRequest 0]
   \<and> sent (handler exampleRuntime (rootRequest 0) 40000 40001 initial) = []"
proof -
  have u: "url (rootRequest 0) = ''/''" by (simp add: rootRequest_def)
  have t: "40000 > lastFetchTimeMS (initial :: string server) + 30000"
    by (simp add: initial_def)
  have i: "inflight (initial :: string server) = []" "sent (initial :: string server) = []"
    by (simp_all add: initial_def)
  from stamp_at_decision_time [OF u t, of exampleRuntime 40001] u t i
  show ?thesis by simp
qed

section \<open>The responses of a run\<close>

lemma transformFeed_Inr:
  "transformFeed raw = Inr v \<Longrightarrow> \<exists>fs. v = featureCollection fs"
proof -
  assume a: "transformFeed raw = Inr v"
  then obtain beans where b: "getProp raw ''stationBeanList'' = Inr beans"
    by (cases "getProp raw ''stationBeanList''") (simp_all add: transformFeed_def)
  with a obtain features where f: "callMap beans transformStation = Inr features"
    by (cases "callMap beans transformStation") (simp_all add: transformFeed_def)
  then obtain fs where "features = JArr fs"
    by (cases beans) (auto split: sum.splits)
  with a b f have "v = featureCollection fs"
    by (simp add: transformFeed_def featureCollection_def)
  then show ?thesis by (rule exI)
qed

lemma stringify_featureCollection:
  "\<exists>t. JSON_stringify rt (featureCollection fs) n = Some t"
  by (simp add: JSON_stringify_def featureCollection_def)

lemma step_live: "thrown s = [] \<Longrightarrow> step rt s ev = deliver rt s ev"
  by (simp add: step_def)

lemma step_dead: "thrown s \<noteq> [] \<Longrightarrow> step rt s ev = s"
  by (simp add: step_def)

lemma run_Nil: "run rt s [] = s"
  by (simp add: run_def)

lemma run_Cons: "run rt s (ev # evs) = run rt (step rt s ev) evs"
  by (simp add: run_def)

lemma run_snoc: "run rt s (evs @ [ev]) = step rt (run rt s evs) ev"
  by (simp add: run_def)

lemma run_dead: "thrown s \<noteq> [] \<Longrightarrow> run rt s evs = s"
  by (induction evs) (simp_all add: run_Nil run_Cons step_dead)

lemma handler_cached: "cachedStations (handler rt c nowMS stamp s) = cachedStations s"
  by (simp add: handler_def sendJsonResponse_def fetchStations_def)

lemma handler_sent:
  "sent (handler rt c nowMS stamp s) = sent s
   \<or> (\<exists>r. sent (handler rt c nowMS stamp s) = sent s @ [(c, r)]
          \<and> (url c = ''/'' \<longrightarrow> r = jsonResponse rt c (cachedStations s)))"
proof (cases "url c = ''/''")
  case False
  then show ?thesis by (simp add: handler_other)
next
  case True
  show ?thesis
  proof (cases "lastFetchTimeMS s + 30000 < nowMS")
    case stale: True
    with True show ?thesis by (simp add: handler_stale fetchStations_def)
  next
    case False
    with True show ?thesis by (simp add: handler_fresh sendJsonResponse_def)
  qed
qed

lemma fetchStations_end_success:
  assumes "k < length (inflight s)"
    and "JSON_parse rt (foldl (@) [] chunks) = Inr raw"
    and "transformFeed raw = Inr stations"
  shows "fetchStations_end rt k chunks s =
     s\<lparr>inflight := take k (inflight s) @ drop (Suc k) (inflight s),
       cachedStations := stations,
       sent := sent s @ [(inflight s ! k, jsonResponse rt (inflight s ! k) stations)]\<rparr>"
  using assms by (simp add: fetchStations_end_def sendJsonResponse_def Let_def)

lemma fetchStations_end_failure:
  assumes "k < length (inflight s)"
    and "JSON_parse rt (foldl (@) [] chunks) = Inl e
         \<or> (\<exists>raw. JSON_parse rt (foldl (@) [] chunks) = Inr raw \<and> transformFeed raw = Inl e)"
  shows "fetchStations_end rt k chunks s =
     s\<lparr>inflight := take k (inflight s) @ drop (Suc k) (inflight s),
       thrown := thrown s @ [e]\<rparr>"
  using assms by (auto simp: fetchStations_end_def Let_def)

lemma end_cases:
  obtains (success) raw stations where "JSON_parse rt txt = Inr raw"
      and "transformFeed raw = Inr stations"
    | (failure) e where "JSON_parse rt txt = Inl e
         \<or> (\<exists>raw. JSON_parse rt txt = Inr raw \<and> transformFeed raw = Inl e)"
proof (cases "JSON_parse rt txt")
  case (Inl e)
  then show ?thesis using failure by blast
next
  case (Inr raw)
  then show ?thesis using success failure by (cases "transformFeed raw") blast+
qed

lemma step_cached:
  "cachedStations (step rt s ev) =
     (case completion rt s ev of None \<Rightarrow> cachedStations s | Some stations \<Rightarrow> stations)"
proof (cases "thrown s = []")
  case False
  then show ?thesis by (cases ev) (simp_all add: step_dead)
next
  case live: True
  show ?thesis
  proof (cases ev)
    case (Request c nowMS stamp)
    with live show ?thesis by (simp add: step_live handler_cached)
  next
    case (UpstreamError k)
    with live show ?thesis by (simp add: step_live fetchStations_error_def)
  next
    case (UpstreamEnd k chunks)
    show ?thesis
    proof (cases "k < length (inflight s)")
      case False
      with live UpstreamEnd show ?thesis by (simp add: step_live fetchStations_end_def)
    next
      case k: True
      show ?thesis
      proof (cases rule: end_cases [of rt "foldl (@) [] chunks"])
        case (success raw stations)
        with live UpstreamEnd k show ?thesis
          by (simp add: step_live fetchStations_end_success)
      next
        case (failure e)
        then have "fetchStations_end rt k chunks s =
            s\<lparr>inflight := take k (inflight s) @ drop (Suc k) (inflight s),
              thrown := thrown s @ [e]\<rparr>"
          using k by (intro fetchStations_end_failure)
        moreover from failure have "completion rt s (UpstreamEnd k chunks) = None"
          using live k by auto
        ultimately show ?thesis using live UpstreamEnd by (simp add: step_live)
      qed
    qed
  qed
qed

lemma step_sent:
  "sent (step rt s ev) = sent s
   \<or> (\<exists>c r. sent (step rt s ev) = sent s @ [(c, r)]
          \<and> (url c = ''/'' \<longrightarrow> r = jsonResponse rt c (cachedStations (step rt s ev))))"
proof (cases "thrown s = []")
  case False
  then show ?thesis by (simp add: step_dead)
next
  case live: True
  show ?thesis
  proof (cases ev)
    case (Request c nowMS stamp)
    with live have "step rt s ev = handler rt c nowMS stamp s" by (simp add: step_live)
    then show ?thesis using handler_sent [of rt c nowMS stamp s]
      by (auto simp: handler_cached)
  next
    case (UpstreamError k)
    with live show ?thesis by (simp add: step_live fetchStations_error_def)
  next
    case (UpstreamEnd k chunks)
    show ?thesis
    proof (cases "k < length (inflight s)")
      case False
      with live UpstreamEnd show ?thesis by (simp add: step_live fetchStations_end_def)
    next
      case k: True
      show ?thesis
      proof (cases rule: end_cases [of rt "foldl (@) [] chunks"])
        case (success raw stations)
        with live UpstreamEnd k show ?thesis
          by (simp add: step_live fetchStations_end_success)
      next
        case (failure e)
        then have "fetchStations_end rt k chunks s =
            s\<lparr>inflight := take k (inflight s) @ drop (Suc k) (inflight s),
              thrown := thrown s @ [e]\<rparr>"
          using k by (intro fetchStations_end_failure)
        then show ?thesis using live UpstreamEnd by (simp add: step_live)
      qed
    qed
  qed
qed

lemma fetched_snoc:
  "fetched rt s (evs @ [ev]) =
     fetched rt s evs
       @ (case completion rt (run rt s evs) ev of None \<Rightarrow> [] | Some stations \<Rightarrow> [stations])"
  by (induction evs arbitrary: s) (simp_all add: run_Nil run_Cons)

lemma cached_run:
  "cachedStations (run rt s evs) =
     (if fetched rt s evs = [] then cachedStations s else last (fetched rt s evs))"
proof (induction evs rule: rev_induct)
  case Nil
  then show ?case by (simp add: run_Nil)
next
  case (snoc ev evs)
  show ?case
  proof (cases "completion rt (run rt s evs) ev")
    case None
    then show ?thesis using snoc by (simp add: run_snoc step_cached fetched_snoc)
  next
    case (Some stations)
    then show ?thesis by (simp add: run_snoc step_cached fetched_snoc)
  qed
qed

lemma completion_collection:
  "completion rt s ev = Some stations \<Longrightarrow> \<exists>fs. stations = featureCollection fs"
proof (cases ev)
  case (UpstreamEnd k chunks)
  assume "completion rt s ev = Some stations"
  with UpstreamEnd obtain raw where "transformFeed raw = Inr stations"
    by (auto split: if_splits sum.splits)
  then show ?thesis by (rule transformFeed_Inr)
qed simp_all

lemma fetched_collections:
  "stations \<in> set (fetched rt s evs) \<Longrightarrow> \<exists>fs. stations = featureCollection fs"
proof (induction evs arbitrary: s)
  case Nil
  then show ?case by simp
next
  case (Cons ev evs)
  show ?case
  proof (cases "stations \<in> set (fetched rt (step rt s ev) evs)")
    case True
    then show ?thesis by (rule Cons.IH)
  next
    case False
    with Cons.prems have "completion rt s ev = Some stations"
      by (cases "completion rt s ev") simp_all
    then show ?thesis by (rule completion_collection)
  qed
qed

lemma sent_run:
  assumes "(c, r) \<in> set (sent (run rt s evs))" and "url c = ''/''"
  shows "(c, r) \<in> set (sent s)
    \<or> (\<exists>pre ev post. evs = pre @ ev # post \<and> answeredAt rt s pre ev c r)"
  using assms(1)
proof (induction evs rule: rev_induct)
  case Nil
  then show ?case by (simp add: run_Nil)
next
  case (snoc e evs)
  let ?s = "run rt s evs"
  have old: "(c, r) \<in> set (sent ?s) \<Longrightarrow> ?case"
  proof -
    assume "(c, r) \<in> set (sent ?s)"
    from snoc.IH [OF this] show ?case
    proof
      assume "(c, r) \<in> set (sent s)"
      then show ?thesis by (rule disjI1)
    next
      assume "\<exists>pre ev post. evs = pre @ ev # post \<and> answeredAt rt s pre ev c r"
      then obtain pre ev post where "evs = pre @ ev # post"
        and a: "answeredAt rt s pre ev c r" by blast
      then have "evs @ [e] = pre @ ev # (post @ [e])" by simp
      with a show ?thesis by blast
    qed
  qed
  from step_sent [of rt ?s e] show ?case
  proof
    assume "sent (step rt ?s e) = sent ?s"
    with snoc.prems have "(c, r) \<in> set (sent ?s)" by (simp add: run_snoc)
    then show ?thesis by (rule old)
  next
    assume "\<exists>c' r'. sent (step rt ?s e) = sent ?s @ [(c', r')]
          \<and> (url c' = ''/'' \<longrightarrow> r' = jsonResponse rt c' (cachedStations (step rt ?s e)))"
    then obtain c' r' where more: "sent (step rt ?s e) = sent ?s @ [(c', r')]"
      and json: "url c' = ''/'' \<longrightarrow> r' = jsonResponse rt c' (cachedStations (step rt ?s e))"
      by blast
    show ?thesis
    proof (cases "(c, r) \<in> set (sent ?s)")
      case True
      then show ?thesis by (rule old)
    next
      case False
      with snoc.prems more have eq: "c' = c" "r' = r" by (simp_all add: run_snoc)
      with json assms(2) have "r = jsonResponse rt c (cachedStations (step rt ?s e))" by simp
      with more eq have "answeredAt rt s evs e c r"
        by (simp add: answeredAt_def run_snoc)
      moreover have "evs @ [e] = evs @ e # []" by simp
      ultimately show ?thesis by blast
    qed
  qed
qed

lemma example_parse:
  "JSON_parse exampleRuntime (foldl (@) [] exampleChunks) =
     Inr (JObj [(''stationBeanList'', JArr [exampleStation])])"
  by (simp add: exampleRuntime_def exampleChunks_def exampleStation_def)

lemma example_transform:
  "transformFeed (JObj [(''stationBeanList'', JArr [exampleStation])]) = Inr exampleCollection"
  by (simp add: transformFeed_def transformStation_def exampleStation_def
      exampleCollection_def featureCollection_def feature_def)

lemma example_run:
  "run exampleRuntime initial
     [Request (rootRequest 0) 1700000000000 1700000000002, UpstreamEnd 0 exampleChunks]
   = \<lparr>lastFetchTimeMS = 1700000000002, cachedStations = exampleCollection,
      inflight = [], upstreamCalls = 1,
      sent = [(rootRequest 0, jsonResponse exampleRuntime (rootRequest 0) exampleCollection)],
      thrown = []\<rparr>"
proof -
  have "thrown (initial :: string server) = []" by (simp add: initial_def)
  then have "step exampleRuntime initial (Request (rootRequest 0) 1700000000000 1700000000002)
      = waitingForFirstFetch"
    by (simp add: step_live waitingForFirstFetch_def)
  moreover have "step exampleRuntime waitingForFirstFetch (UpstreamEnd 0 exampleChunks)
      = fetchStations_end exampleRuntime 0 exampleChunks waitingForFirstFetch"
    by (simp add: step_live waitingForFirstFetch_eq)
  ultimately have "run exampleRuntime initial
     [Request (rootRequest 0) 1700000000000 1700000000002, UpstreamEnd 0 exampleChunks]
     = fetchStations_end exampleRuntime 0 exampleChunks waitingForFirstFetch"
    by (simp add: run_Cons run_Nil)
  then show ?thesis
    by (simp add: waitingForFirstFetch_eq fetchStations_end_def example_parse
        example_transform sendJsonResponse_def Let_def)
qed

lemma example_fetched:
  "fetched exampleRuntime initial
     [Request (rootRequest 0) 1700000000000 1700000000002, UpstreamEnd 0 exampleChunks]
   = [exampleCollection]"
proof -
  have "thrown (initial :: string server) = []" by (simp add: initial_def)
  then have "step exampleRuntime initial (Request (rootRequest 0) 1700000000000 1700000000002)
      = waitingForFirstFetch"
    by (simp add: step_live waitingForFirstFetch_def)
  moreover have "completion exampleRuntime waitingForFirstFetch (UpstreamEnd 0 exampleChunks)
      = Some exampleCollection"
    by (simp add: waitingForFirstFetch_eq example_parse example_transform)
  ultimately show ?thesis by simp
qed

lemma example_text:
  "JSON_stringify exampleRuntime exampleCollection 3 = Some (join newline
     [''{'',
      ''   \"type\": \"FeatureCollection\",'',
      ''   \"features\": ['',
      ''      {'',
      ''         \"type\": \"Feature\",'',
      ''         \"geometry\": {'',
      ''            \"type\": \"Point\",'',
      ''            \"coordinates\": ['',
      ''               -122.4,'',
      ''               37.8'',
      ''            ]'',
      ''         },'',
      ''         \"properties\": {'',
      ''            \"id\": 1,'',
      ''            \"longitude\": -122.4,'',
      ''            \"latitude\": 37.8'',
      ''         }'',
      ''      }'',
      ''   ]'',
      ''}''])"
  by (simp add: JSON_stringify_def exampleCollection_def exampleStation_def exampleRuntime_def
      featureCollection_def feature_def wrapMembers_def QuoteJSONString_def quoteChar_def
      newline_def Let_def numeral_3_eq_3)

text \<open>
  C8, as the claim states it, fails: an \<^verbatim>\<open>Origin\<close> header that is present and empty is
  not echoed, since \<^verbatim>\<open>request.headers.origin || '*'\<close> takes the empty string for
  absent; and the body is not always a FeatureCollection, it is \<^verbatim>\<open>null\<close> while no fetch
  has completed.
\<close>

theorem empty_origin_counterexample:
  "url emptyOriginRequest = ''/''
   \<and> origin emptyOriginRequest = Some []
   \<and> headers (snd (last (sent (handler exampleRuntime emptyOriginRequest
          1700000000005 1700000000006 waitingForFirstFetch))))
        ''Access-Control-Allow-Origin'' = Some ''*''
   \<and> body (snd (last (sent (handler exampleRuntime emptyOriginRequest
          1700000000005 1700000000006 waitingForFirstFetch)))) = ''null''"
  by (simp add: waitingForFirstFetch_eq emptyOriginRequest_def handler_def refetchInterval
      sendJsonResponse_def jsonResponse_allowOrigin jsonResponse_body stringify_null)

text \<open>
  C8, amended. In every run from the initial state, every response to a request whose url
  is exactly \<^verbatim>\<open>/\<close> has status 200, the header \<^verbatim>\<open>Content-Type: application/json\<close> and the
  header \<^verbatim>\<open>Access-Control-Allow-Origin\<close> equal to the request's \<^verbatim>\<open>Origin\<close> header when
  that is present and not empty and \<^verbatim>\<open>*\<close> otherwise. Its body is the text that
  \<^verbatim>\<open>JSON.stringify\<close> gives, with an indentation of 3, for \<^verbatim>\<open>cachedStations\<close> as the event
  that sent the response left it; and that value is \<^verbatim>\<open>null\<close> exactly while the run has
  completed no fetch, and otherwise the FeatureCollection that \<^verbatim>\<open>transformFeed\<close> made of
  the feed of the fetch completed last.
\<close>

theorem root_responses:
  assumes "(c, r) \<in> set (sent (run rt initial evs))"
    and "url c = ''/''"
  shows "statusCode r = 200
    \<and> headers r ''Content-Type'' = Some ''application/json''
    \<and> headers r ''Access-Control-Allow-Origin'' =
         Some (case origin c of None \<Rightarrow> ''*'' | Some v \<Rightarrow> if v = [] then ''*'' else v)
    \<and> (\<exists>pre ev post. evs = pre @ ev # post
          \<and> sent (run rt initial (pre @ [ev])) = sent (run rt initial pre) @ [(c, r)]
          \<and> JSON_stringify rt (cachedStations (run rt initial (pre @ [ev]))) 3 = Some (body r)
          \<and> cachedStations (run rt initial (pre @ [ev])) =
               (if fetched rt initial (pre @ [ev]) = [] then JNull
                else last (fetched rt initial (pre @ [ev])))
          \<and> (cachedStations (run rt initial (pre @ [ev])) = JNull
                \<longleftrightarrow> fetched rt initial (pre @ [ev]) = [])
          \<and> (\<forall>stations \<in> set (fetched rt initial (pre @ [ev])).
                \<exists>fs. stations = featureCollection fs))"
proof -
  have "(c, r) \<notin> set (sent (initial :: 'a server))" by (simp add: initial_def)
  with sent_run [OF assms] obtain pre ev post where evs: "evs = pre @ ev # post"
    and a: "answeredAt rt initial pre ev c r" by blast
  let ?s = "run rt initial (pre @ [ev])"
  from a have more: "sent ?s = sent (run rt initial pre) @ [(c, r)]"
    and r: "r = jsonResponse rt c (cachedStations ?s)"
    unfolding answeredAt_def by simp_all
  have cache: "cachedStations ?s =
      (if fetched rt initial (pre @ [ev]) = [] then JNull
       else last (fetched rt initial (pre @ [ev])))"
    using cached_run [of rt initial "pre @ [ev]"] by (simp add: initial_def)
  have colls: "\<forall>stations \<in> set (fetched rt initial (pre @ [ev])).
      \<exists>fs. stations = featureCollection fs"
    using fetched_collections by blast
  have "\<exists>t. JSON_stringify rt (cachedStations ?s) 3 = Some t"
  proof (cases "fetched rt initial (pre @ [ev]) = []")
    case True
    with cache show ?thesis by (simp add: stringify_null)
  next
    case False
    then have "last (fetched rt initial (pre @ [ev])) \<in> set (fetched rt initial (pre @ [ev]))"
      by (rule last_in_set)
    with colls obtain fs where "last (fetched rt initial (pre @ [ev])) = featureCollection fs"
      by blast
    with False cache have "cachedStations ?s = featureCollection fs" by simp
    then show ?thesis by (simp add: stringify_featureCollection)
  qed
  have nul: "cachedStations ?s = JNull \<longleftrightarrow> fetched rt initial (pre @ [ev]) = []"
  proof (cases "fetched rt initial (pre @ [ev]) = []")
    case True
    with cache show ?thesis by simp
  next
    case False
    then have "last (fetched rt initial (pre @ [ev])) \<in> set (fetched rt initial (pre @ [ev]))"
      by (rule last_in_set)
    with colls obtain fs where "last (fetched rt initial (pre @ [ev])) = featureCollection fs"
      by blast
    with False cache show ?thesis by (simp add: featureCollection_def)
  qed
  obtain t where "JSON_stringify rt (cachedStations ?s) 3 = Some t"
    using \<open>\<exists>t. JSON_stringify rt (cachedStations ?s) 3 = Some t\<close> by (rule exE)
  then have ser: "JSON_stringify rt (cachedStations ?s) 3 = Some (body r)"
    by (simp add: r jsonResponse_body)
  have "\<exists>pre ev post. evs = pre @ ev # post
          \<and> sent (run rt initial (pre @ [ev])) = sent (run rt initial pre) @ [(c, r)]
          \<and> JSON_stringify rt (cachedStations (run rt initial (pre @ [ev]))) 3 = Some (body r)
          \<and> cachedStations (run rt initial (pre @ [ev])) =
               (if fetched rt initial (pre @ [ev]) = [] then JNull
                else last (fetched rt initial (pre @ [ev])))
          \<and> (cachedStations (run rt initial (pre @ [ev])) = JNull
                \<longleftrightarrow> fetched rt initial (pre @ [ev]) = [])
          \<and> (\<forall>stations \<in> set (fetched rt initial (pre @ [ev])).
                \<exists>fs. stations = featureCollection fs)"
    using evs more ser cache nul colls by (intro exI [of _ pre] exI [of _ ev] exI [of _ post] conjI)
  moreover have "statusCode r = 200"
    and "headers r ''Content-Type'' = Some ''application/json''"
    and "headers r ''Access-Control-Allow-Origin'' =
         Some (case origin c of None \<Rightarrow> ''*'' | Some v \<Rightarrow> if v = [] then ''*'' else v)"
    unfolding r
    by (rule jsonResponse_status, rule jsonResponse_contentType, rule jsonResponse_allowOrigin)
  ultimately show ?thesis by (intro conjI)
qed

theorem root_responses_witness:
  "(rootRequest 0, jsonResponse exampleRuntime (rootRequest 0) exampleCollection)
       \<in> set (sent (run exampleRuntime initial
             [Request (rootRequest 0) 1700000000000 1700000000002,
              UpstreamEnd 0 exampleChunks]))
   \<and> url (rootRequest 0) = ''/''
   \<and> statusCode (jsonResponse exampleRuntime (rootRequest 0) exampleCollection) = 200
   \<and> headers (jsonResponse exampleRuntime (rootRequest 0) exampleCollection)
         ''Content-Type'' = Some ''application/json''
   \<and> headers (jsonResponse exampleRuntime (rootRequest 0) exampleCollection)
         ''Access-Control-Allow-Origin'' = Some ''*''
   \<and> cachedStations (run exampleRuntime initial
         [Request (rootRequest 0) 1700000000000 1700000000002,
          UpstreamEnd 0 exampleChunks]) = exampleCollection
   \<and> fetched exampleRuntime initial
         [Request (rootRequest 0) 1700000000000 1700000000002,
          UpstreamEnd 0 exampleChunks] = [exampleCollection]
   \<and> JSON_stringify exampleRuntime exampleCollection 3 =
         Some (body (jsonResponse exampleRuntime (rootRequest 0) exampleCollection))"
proof -
  let ?r = "jsonResponse exampleRuntime (rootRequest 0) exampleCollection"
  have m: "(rootRequest 0, ?r)
       \<in> set (sent (run exampleRuntime initial
             [Request (rootRequest 0) 1700000000000 1700000000002,
              UpstreamEnd 0 exampleChunks]))"
    by (simp add: example_run)
  have u: "url (rootRequest 0) = ''/''" by (simp add: rootRequest_def)
  have o: "origin (rootRequest 0) = None" by (simp add: rootRequest_def)
  have t: "JSON_stringify exampleRuntime exampleCollection 3 = Some (body ?r)"
    by (simp add: jsonResponse_body example_text)
  have c: "cachedStations (run exampleRuntime initial
         [Request (rootRequest 0) 1700000000000 1700000000002,
          UpstreamEnd 0 exampleChunks]) = exampleCollection"
    by (simp add: example_run)
  from root_responses [OF m u] have "statusCode ?r = 200
    \<and> headers ?r ''Content-Type'' = Some ''application/json''
    \<and> headers ?r ''Access-Control-Allow-Origin'' =
         Some (case origin (rootRequest 0) of None \<Rightarrow> ''*''
               | Some v \<Rightarrow> if v = [] then ''*'' else v)"
    by blast
  with m u o t c example_fetched show ?thesis by simp
qed

section \<open>One fetch for a burst of requests\<close>

lemma step_fresh_request:
  assumes "thrown s = []" and "rootRequestBy lim ev" and "lim \<le> lastFetchTimeMS s + 30000"
  shows "step rt s ev = s\<lparr>sent := sent s @ answerFrom rt (cachedStations s) ev\<rparr>"
proof (cases ev)
  case (Request c nowMS stamp)
  with assms have "url c = ''/''" and "nowMS \<le> lastFetchTimeMS s + 30000" by simp_all
  then show ?thesis using Request assms(1)
    by (simp add: step_live handler_fresh sendJsonResponse_def)
next
  case (UpstreamEnd k chunks)
  with assms show ?thesis by simp
next
  case (UpstreamError k)
  with assms show ?thesis by simp
qed

lemma run_fresh_requests:
  "thrown s = [] \<Longrightarrow> \<forall>ev \<in> set evs. rootRequestBy lim ev \<Longrightarrow>
   lim \<le> lastFetchTimeMS s + 30000 \<Longrightarrow>
   run rt s evs = s\<lparr>sent := sent s @ concat (map (answerFrom rt (cachedStations s)) evs)\<rparr>"
proof (induction evs arbitrary: s)
  case Nil
  then show ?case by (simp add: run_Nil)
next
  case (Cons ev evs)
  let ?s' = "s\<lparr>sent := sent s @ answerFrom rt (cachedStations s) ev\<rparr>"
  have st: "step rt s ev = ?s'"
    using Cons.prems step_fresh_request [of s lim ev rt] by simp
  have "run rt ?s' evs =
      ?s'\<lparr>sent := sent ?s' @ concat (map (answerFrom rt (cachedStations ?s')) evs)\<rparr>"
    using Cons.prems by (intro Cons.IH) simp_all
  then show ?case by (simp add: run_Cons st)
qed

text \<open>
  C3. On a running server, a request of the root url that finds the cache stale starts
  a fetch. If the requests of the root url that follow it read the clock at most 1 ms
  after it did, and no upstream response ends in between, then \<^verbatim>\<open>https.get\<close> is called
  exactly once for the whole burst: each later request needs no refetch and is answered
  at once from the cache as it was before the burst (\<^verbatim>\<open>null\<close> when it was empty), while
  the callback of the first still waits, and the server keeps running. The timestamp the
  first request stores is its second reading of the clock, which is taken not to lie
  30 seconds or more before the first.
\<close>

theorem no_refetch_storm:
  assumes live: "thrown s = []"
    and root: "url c = ''/''"
    and stale: "nowMS > lastFetchTimeMS s + 30000"
    and clock: "nowMS \<le> stamp + 29999"
    and burst: "\<forall>ev \<in> set evs. rootRequestBy (nowMS + 1) ev"
  shows "upstreamCalls (run rt s (Request c nowMS stamp # evs)) = upstreamCalls s + 1
    \<and> inflight (run rt s (Request c nowMS stamp # evs)) = inflight s @ [c]
    \<and> sent (run rt s (Request c nowMS stamp # evs)) =
         sent s @ concat (map (answerFrom rt (cachedStations s)) evs)
    \<and> cachedStations (run rt s (Request c nowMS stamp # evs)) = cachedStations s
    \<and> lastFetchTimeMS (run rt s (Request c nowMS stamp # evs)) = stamp
    \<and> thrown (run rt s (Request c nowMS stamp # evs)) = []"
proof -
  let ?s1 = "(fetchStations c s)\<lparr>lastFetchTimeMS := stamp\<rparr>"
  have first: "step rt s (Request c nowMS stamp) = ?s1"
    using live root stale by (simp add: step_live handler_stale)
  have live1: "thrown ?s1 = []"
    using live by (simp add: fetchStations_def)
  have lim: "nowMS + 1 \<le> lastFetchTimeMS ?s1 + 30000"
    using clock by simp
  have "run rt ?s1 evs =
      ?s1\<lparr>sent := sent ?s1 @ concat (map (answerFrom rt (cachedStations ?s1)) evs)\<rparr>"
    using live1 burst lim by (rule run_fresh_requests)
  moreover have "run rt s (Request c nowMS stamp # evs) = run rt ?s1 evs"
    by (simp only: run_Cons first)
  ultimately show ?thesis
    using live by (simp add: fetchStations_def)
qed

theorem no_refetch_storm_witness:
  "thrown (initial :: string server) = []
   \<and> url (rootRequest 0) = ''/''
   \<and> 1700000000000 > lastFetchTimeMS (initial :: string server) + 30000
   \<and> (1700000000000 :: int) \<le> 1700000000002 + 29999
   \<and> rootRequestBy (1700000000000 + 1) (Request (rootRequest 1) 1700000000000 1700000000003)
   \<and> rootRequestBy (1700000000000 + 1) (Request emptyOriginRequest 1700000000001 1700000000004)
   \<and> upstreamCalls (run exampleRuntime initial
        [Request (rootRequest 0) 1700000000000 1700000000002,
         Request (rootRequest 1) 1700000000000 1700000000003,
         Request emptyOriginRequest 1700000000001 1700000000004]) = 1
   \<and> sent (run exampleRuntime initial
        [Request (rootRequest 0) 1700000000000 1700000000002,
         Request (rootRequest 1) 1700000000000 1700000000003,
         Request emptyOriginRequest 1700000000001 1700000000004])
       = [(rootRequest 1, jsonResponse exampleRuntime (rootRequest 1) JNull),
          (emptyOriginRequest, jsonResponse exampleRuntime emptyOriginRequest JNull)]"
proof -
  have l: "thrown (initial :: string server) = []" by (simp add: initial_def)
  have u: "url (rootRequest 0) = ''/''" by (simp add: rootRequest_def)
  have st: "1700000000000 > lastFetchTimeMS (initial :: string server) + 30000"
    by (simp add: initial_def)
  have cl: "(1700000000000 :: int) \<le> 1700000000002 + 29999" by simp
  have b: "\<forall>ev \<in> set [Request (rootRequest 1) 1700000000000 1700000000003,
                     Request emptyOriginRequest 1700000000001 1700000000004].
          rootRequestBy (1700000000000 + 1) ev"
    by (simp add: rootRequest_def emptyOriginRequest_def)
  have i: "upstreamCalls (initial :: string server) = 0"
    "sent (initial :: string server) = []"
    "cachedStations (initial :: string server) = JNull"
    by (simp_all add: initial_def)
  have b1: "rootRequestBy (1700000000000 + 1)
              (Request (rootRequest 1) 1700000000000 1700000000003)"
    and b2: "rootRequestBy (1700000000000 + 1)
              (Request emptyOriginRequest 1700000000001 1700000000004)"
    using b by simp_all
  from no_refetch_storm [OF l u st cl b, of exampleRuntime] l u st cl b1 b2 i
  show ?thesis by simp
qed

section \<open>The end of a fetch\<close>

lemma failure_step:
  assumes live: "thrown s = []" and k: "k < length (inflight s)"
    and f: "upstreamFailure rt k ev"
  shows "\<exists>e. step rt s ev =
     s\<lparr>inflight := take k (inflight s) @ drop (Suc k) (inflight s),
       thrown := thrown s @ [e]\<rparr>"
proof (cases ev)
  case (Request c nowMS stamp)
  with f show ?thesis by simp
next
  case (UpstreamError j)
  with f k live have "step rt s ev =
     s\<lparr>inflight := take k (inflight s) @ drop (Suc k) (inflight s),
       thrown := thrown s @ [NetworkError]\<rparr>"
    by (simp add: step_live fetchStations_error_def)
  then show ?thesis by (rule exI)
next
  case (UpstreamEnd j chunks)
  with f have j: "j = k" by simp
  show ?thesis
  proof (cases rule: end_cases [of rt "foldl (@) [] chunks"])
    case (success raw stations)
    with f UpstreamEnd show ?thesis by simp
  next
    case (failure e)
    then have "fetchStations_end rt k chunks s =
        s\<lparr>inflight := take k (inflight s) @ drop (Suc k) (inflight s),
          thrown := thrown s @ [e]\<rparr>"
      using k by (intro fetchStations_end_failure)
    then have "step rt s ev =
        s\<lparr>inflight := take k (inflight s) @ drop (Suc k) (inflight s),
          thrown := thrown s @ [e]\<rparr>"
      using live UpstreamEnd j by (simp add: step_live)
    then show ?thesis by (rule exI)
  qed
qed

lemma mismatch_parse:
  "JSON_parse mismatchRuntime (foldl (@) [] [''{\"stationBeanList\":[{\"id\":1}]}'']) =
     Inr (JObj [(''stationBeanList'', JArr [JObj [(''id'', JNum ''1'')]])])"
  by (simp add: mismatchRuntime_def)

lemma mismatch_transform:
  "transformFeed (JObj [(''stationBeanList'', JArr [JObj [(''id'', JNum ''1'')]])])
     = Inr mismatchCollection"
  by (simp add: transformFeed_def transformStation_def mismatchCollection_def
      featureCollection_def feature_def)

text \<open>
  C6, as the claim states it, fails: a schema mismatch need not be a failure. When the
  station of the feed has neither \<^verbatim>\<open>longitude\<close> nor \<^verbatim>\<open>latitude\<close>, nothing throws: the
  request that started the fetch is answered and \<^verbatim>\<open>cachedStations\<close>, \<^verbatim>\<open>null\<close> before,
  is overwritten.
\<close>

theorem schema_mismatch_answered_counterexample:
  "cachedStations waitingForFirstFetch = JNull
   \<and> sent waitingForFirstFetch = []
   \<and> inflight waitingForFirstFetch = [rootRequest 0]
   \<and> sent (step mismatchRuntime waitingForFirstFetch mismatchEnd) =
        [(rootRequest 0, jsonResponse mismatchRuntime (rootRequest 0) mismatchCollection)]
   \<and> cachedStations (step mismatchRuntime waitingForFirstFetch mismatchEnd) = mismatchCollection
   \<and> mismatchCollection \<noteq> JNull
   \<and> thrown (step mismatchRuntime waitingForFirstFetch mismatchEnd) = []"
proof -
  have "step mismatchRuntime waitingForFirstFetch mismatchEnd =
      fetchStations_end mismatchRuntime 0 [''{\"stationBeanList\":[{\"id\":1}]}'']
        waitingForFirstFetch"
    by (simp add: step_live waitingForFirstFetch_eq mismatchEnd_def)
  also have "\<dots> = waitingForFirstFetch\<lparr>inflight := take 0 (inflight waitingForFirstFetch)
          @ drop (Suc 0) (inflight waitingForFirstFetch),
       cachedStations := mismatchCollection,
       sent := sent waitingForFirstFetch
          @ [(inflight waitingForFirstFetch ! 0,
              jsonResponse mismatchRuntime (inflight waitingForFirstFetch ! 0)
                mismatchCollection)]\<rparr>"
    by (rule fetchStations_end_success [OF _ mismatch_parse mismatch_transform])
       (simp add: waitingForFirstFetch_eq)
  finally show ?thesis
    by (simp add: waitingForFirstFetch_eq mismatchCollection_def featureCollection_def)
qed

text \<open>
  C6, amended. On a running server, a waiting fetch fails when its request fails on the
  network or its response ends with a body on which \<^verbatim>\<open>JSON.parse\<close> or \<^verbatim>\<open>transformFeed\<close>
  throws. Then the exception is uncaught and the process ends: the callback is never
  called, no response is sent, \<^verbatim>\<open>cachedStations\<close> and \<^verbatim>\<open>lastFetchTimeMS\<close> are as they
  were (no rollback), and whatever events follow, nothing happens any more: the
  request that started the fetch is never answered, and neither is any other, and no
  fetch is started, within the refetch interval or after it. When the body parses and
  \<^verbatim>\<open>transformFeed\<close> returns, as it does for stations without \<^verbatim>\<open>longitude\<close> or
  \<^verbatim>\<open>latitude\<close>, the fetch has not failed: the request is answered with the new
  collection, which overwrites \<^verbatim>\<open>cachedStations\<close>, and the server keeps running.
\<close>

theorem upstream_failure:
  assumes live: "thrown s = []" and k: "k < length (inflight s)"
  shows "(upstreamFailure rt k ev \<longrightarrow>
            thrown (step rt s ev) \<noteq> []
          \<and> sent (step rt s ev) = sent s
          \<and> cachedStations (step rt s ev) = cachedStations s
          \<and> lastFetchTimeMS (step rt s ev) = lastFetchTimeMS s
          \<and> upstreamCalls (step rt s ev) = upstreamCalls s
          \<and> (\<forall>evs. run rt (step rt s ev) evs = step rt s ev))
    \<and> (\<forall>chunks raw stations.
            ev = UpstreamEnd k chunks
          \<and> JSON_parse rt (foldl (@) [] chunks) = Inr raw
          \<and> transformFeed raw = Inr stations \<longrightarrow>
            sent (step rt s ev) =
              sent s @ [(inflight s ! k, jsonResponse rt (inflight s ! k) stations)]
          \<and> cachedStations (step rt s ev) = stations
          \<and> thrown (step rt s ev) = [])"
proof (intro conjI impI allI)
  assume f: "upstreamFailure rt k ev"
  from failure_step [OF live k f] obtain e where
    st: "step rt s ev =
      s\<lparr>inflight := take k (inflight s) @ drop (Suc k) (inflight s),
        thrown := thrown s @ [e]\<rparr>" by (rule exE)
  show dead: "thrown (step rt s ev) \<noteq> []" by (simp add: st)
  show "sent (step rt s ev) = sent s" by (simp add: st)
  show "cachedStations (step rt s ev) = cachedStations s" by (simp add: st)
  show "lastFetchTimeMS (step rt s ev) = lastFetchTimeMS s" by (simp add: st)
  show "upstreamCalls (step rt s ev) = upstreamCalls s" by (simp add: st)
  fix evs
  show "run rt (step rt s ev) evs = step rt s ev" using dead by (rule run_dead)
next
  fix chunks raw stations
  assume a: "ev = UpstreamEnd k chunks
          \<and> JSON_parse rt (foldl (@) [] chunks) = Inr raw
          \<and> transformFeed raw = Inr stations"
  then have p: "JSON_parse rt (foldl (@) [] chunks) = Inr raw"
    and t: "transformFeed raw = Inr stations" by simp_all
  have "fetchStations_end rt k chunks s =
     s\<lparr>inflight := take k (inflight s) @ drop (Suc k) (inflight s),
       cachedStations := stations,
       sent := sent s @ [(inflight s ! k, jsonResponse rt (inflight s ! k) stations)]\<rparr>"
    by (rule fetchStations_end_success [OF k p t])
  with a live have st: "step rt s ev =
     s\<lparr>inflight := take k (inflight s) @ drop (Suc k) (inflight s),
       cachedStations := stations,
       sent := sent s @ [(inflight s ! k, jsonResponse rt (inflight s ! k) stations)]\<rparr>"
    by (simp add: step_live)
  show "sent (step rt s ev) =
              sent s @ [(inflight s ! k, jsonResponse rt (inflight s ! k) stations)]"
    by (simp add: st)
  show "cachedStations (step rt s ev) = stations" by (simp add: st)
  show "thrown (step rt s ev) = []" using live by (simp add: st)
qed

theorem upstream_failure_witness:
  "thrown waitingForFirstFetch = []
   \<and> 0 < length (inflight waitingForFirstFetch)
   \<and> upstreamFailure exampleRuntime 0 badGateway
   \<and> thrown (step exampleRuntime waitingForFirstFetch badGateway) \<noteq> []
   \<and> sent (step exampleRuntime waitingForFirstFetch badGateway) = []
   \<and> cachedStations (step exampleRuntime waitingForFirstFetch badGateway) = JNull
   \<and> lastFetchTimeMS (step exampleRuntime waitingForFirstFetch badGateway) = 1700000000002
   \<and> sent (run exampleRuntime (step exampleRuntime waitingForFirstFetch badGateway)
        [Request (rootRequest 1) 1700000000005 1700000000006,
         Request (rootRequest 2) 1700000040000 1700000040001]) = []
   \<and> upstreamCalls (run exampleRuntime (step exampleRuntime waitingForFirstFetch badGateway)
        [Request (rootRequest 1) 1700000000005 1700000000006,
         Request (rootRequest 2) 1700000040000 1700000040001]) = 1
   \<and> sent (step exampleRuntime waitingForFirstFetch (UpstreamEnd 0 exampleChunks)) =
        [(rootRequest 0, jsonResponse exampleRuntime (rootRequest 0) exampleCollection)]
   \<and> cachedStations (step exampleRuntime waitingForFirstFetch (UpstreamEnd 0 exampleChunks))
        = exampleCollection"
proof -
  have l: "thrown waitingForFirstFetch = []"
    by (simp add: waitingForFirstFetch_eq)
  have k: "0 < length (inflight waitingForFirstFetch)"
    by (simp add: waitingForFirstFetch_eq)
  have f: "upstreamFailure exampleRuntime 0 badGateway"
    by (simp add: badGateway_def exampleRuntime_def)
  have v: "sent waitingForFirstFetch = []" "cachedStations waitingForFirstFetch = JNull"
    "lastFetchTimeMS waitingForFirstFetch = 1700000000002"
    "upstreamCalls waitingForFirstFetch = 1"
    "inflight waitingForFirstFetch ! 0 = rootRequest 0"
    by (simp_all add: waitingForFirstFetch_eq)
  from upstream_failure [OF l k, of exampleRuntime badGateway] f
  have fail: "thrown (step exampleRuntime waitingForFirstFetch badGateway) \<noteq> []"
    "sent (step exampleRuntime waitingForFirstFetch badGateway) = sent waitingForFirstFetch"
    "cachedStations (step exampleRuntime waitingForFirstFetch badGateway)
       = cachedStations waitingForFirstFetch"
    "lastFetchTimeMS (step exampleRuntime waitingForFirstFetch badGateway)
       = lastFetchTimeMS waitingForFirstFetch"
    "upstreamCalls (step exampleRuntime waitingForFirstFetch badGateway)
       = upstreamCalls waitingForFirstFetch"
    "run exampleRuntime (step exampleRuntime waitingForFirstFetch badGateway)
        [Request (rootRequest 1) 1700000000005 1700000000006,
         Request (rootRequest 2) 1700000040000 1700000040001]
       = step exampleRuntime waitingForFirstFetch badGateway"
    by blast+
  from upstream_failure [OF l k, of exampleRuntime "UpstreamEnd 0 exampleChunks"]
    example_parse example_transform
  have ok: "sent (step exampleRuntime waitingForFirstFetch (UpstreamEnd 0 exampleChunks)) =
        sent waitingForFirstFetch
          @ [(inflight waitingForFirstFetch ! 0,
              jsonResponse exampleRuntime (inflight waitingForFirstFetch ! 0) exampleCollection)]"
    "cachedStations (step exampleRuntime waitingForFirstFetch (UpstreamEnd 0 exampleChunks))
        = exampleCollection"
    by blast+
  show ?thesis
    using l k f fail ok unfolding v by (intro conjI) simp_all
qed

section \<open>The feed transformer is pure\<close>

lemma denote_append:
  "refsBelow (length h) v \<Longrightarrow> denote (h @ new) v = denote h v"
proof (cases v)
  case (HRef a)
  assume "refsBelow (length h) v"
  with HRef have a: "a < length h" by simp
  then have "take a (h @ new) = take a h" and "(h @ new) ! a = h ! a"
    by (simp_all add: nth_append)
  with a HRef show ?thesis by (simp split: hobj.splits)
qed simp_all

lemma denote_take:
  "refsBelow a v \<Longrightarrow> a \<le> length h \<Longrightarrow> denote (take a h) v = denote h v"
proof -
  assume v: "refsBelow a v" and a: "a \<le> length h"
  then have "refsBelow (length (take a h)) v" by simp
  then have "denote (take a h @ drop a h) v = denote (take a h) v"
    by (rule denote_append)
  then show ?thesis by simp
qed

lemma refsBelow_mono: "refsBelow n v \<Longrightarrow> n \<le> m \<Longrightarrow> refsBelow m v"
  by (cases v) simp_all

lemma denote_last:
  "denote (h @ [c]) (HRef (length h)) =
     (case c of
        HArr xs \<Rightarrow> JArr (map (denote h) xs)
      | HObj kvs \<Rightarrow> JObj (map (\<lambda>kv. (fst kv, denote h (snd kv))) kvs))"
  by (simp split: hobj.splits)

lemma orderedD:
  "ordered h \<Longrightarrow> a < length h \<Longrightarrow> v \<in> set (members (h ! a)) \<Longrightarrow> refsBelow a v"
  unfolding ordered_def by blast

lemma ordered_snoc:
  assumes h: "ordered h" and c: "\<forall>v \<in> set (members c). refsBelow (length h) v"
  shows "ordered (h @ [c])"
  unfolding ordered_def
proof (intro allI impI ballI)
  fix a v
  assume a: "a < length (h @ [c])" and v: "v \<in> set (members ((h @ [c]) ! a))"
  show "refsBelow a v"
  proof (cases "a < length h")
    case True
    with v have "v \<in> set (members (h ! a))" by (simp add: nth_append)
    with h True show ?thesis by (rule orderedD)
  next
    case False
    with a have "a = length h" by simp
    with v c show ?thesis by simp
  qed
qed

lemma map_of_denote:
  "map_of (map (\<lambda>kv. (fst kv, f (snd kv))) kvs) k = map_option f (map_of kvs k)"
  by (induction kvs) auto

lemma getPropIn_Inl:
  "getPropIn h v k = Inl e \<Longrightarrow> getProp (denote h v) k = Inl e"
  by (cases v) (auto simp: getPropIn_def split: if_splits hobj.splits)

lemma getPropIn_Inr:
  assumes h: "ordered h" and r: "getPropIn h v k = Inr w"
  shows "getProp (denote h v) k = Inr (denote h w) \<and> refsBelow (length h) w"
proof (cases v)
  case (HRef a)
  with r have a: "a < length h"
    by (simp add: getPropIn_def split: if_splits)
  show ?thesis
  proof (cases "h ! a")
    case (HArr xs)
    with r HRef a show ?thesis by (simp add: getPropIn_def)
  next
    case (HObj kvs)
    show ?thesis
    proof (cases "map_of kvs k")
      case None
      with r HRef a HObj show ?thesis by (auto simp: getPropIn_def map_of_denote)
    next
      case (Some u)
      with r HRef a HObj have w: "w = u" by (simp add: getPropIn_def)
      from Some have "u \<in> set (members (h ! a))"
        using HObj map_of_SomeD [of kvs k u] by force
      with h a have below: "refsBelow a u" by (rule orderedD)
      then have "denote (take a h) u = denote h u"
        using a by (simp add: denote_take)
      moreover have "refsBelow (length h) u"
        using below a by (simp add: refsBelow_mono)
      ultimately show ?thesis
        using HRef a HObj Some w by (simp add: map_of_denote)
    qed
  qed
qed (use r in \<open>auto simp: getPropIn_def\<close>)

lemma transformStationIn_Inl:
  assumes "transformStationIn st h = Inl e"
  shows "transformStation (denote h st) = Inl e"
proof (cases "getPropIn h st ''longitude''")
  case (Inl e')
  with assms have "e' = e" by (simp add: transformStationIn_def)
  with Inl show ?thesis using getPropIn_Inl [of h st "''longitude''" e]
    by (simp add: transformStation_def)
next
  case (Inr lon)
  with assms have "getPropIn h st ''latitude'' = Inl e"
    by (cases "getPropIn h st ''latitude''") (simp_all add: transformStationIn_def)
  then have l: "getProp (denote h st) ''latitude'' = Inl e" by (rule getPropIn_Inl)
  then have e: "e = TypeError" by (rule getProp_error)
  show ?thesis
  proof (cases "getProp (denote h st) ''longitude''")
    case (Inl a)
    then have "a = TypeError" by (rule getProp_error)
    with Inl e show ?thesis by (simp add: transformStation_def)
  next
    case (Inr b)
    with l show ?thesis by (simp add: transformStation_def)
  qed
qed

lemma transformStationIn_Inr:
  assumes h: "ordered h" and st: "refsBelow (length h) st"
    and r: "transformStationIn st h = Inr (y, h')"
  shows "\<exists>new. h' = h @ new" and "ordered h'" and "y = HRef (length h + 2)"
    and "length h' = length h + 3"
    and "transformStation (denote h st) = Inr (denote h' y)"
proof -
  from r obtain lon where lon: "getPropIn h st ''longitude'' = Inr lon"
    by (cases "getPropIn h st ''longitude''") (simp_all add: transformStationIn_def)
  with r obtain lat where lat: "getPropIn h st ''latitude'' = Inr lat"
    by (cases "getPropIn h st ''latitude''") (simp_all add: transformStationIn_def)
  let ?c0 = "HArr [lon, lat]"
  let ?c1 = "HObj [(''type'', HStr ''Point''), (''coordinates'', HRef (length h))]"
  let ?c2 = "HObj [(''type'', HStr ''Feature''), (''geometry'', HRef (length h + 1)),
                   (''properties'', st)]"
  from r lon lat have y: "y = HRef (length h + 2)" and h': "h' = h @ [?c0, ?c1, ?c2]"
    by (simp_all add: transformStationIn_def)
  show "y = HRef (length h + 2)" by (rule y)
  show "\<exists>new. h' = h @ new" using h' by (rule exI)
  show "length h' = length h + 3" using h' by simp
  have plon: "getProp (denote h st) ''longitude'' = Inr (denote h lon)"
    and blon: "refsBelow (length h) lon"
    using getPropIn_Inr [OF h lon] by simp_all
  have plat: "getProp (denote h st) ''latitude'' = Inr (denote h lat)"
    and blat: "refsBelow (length h) lat"
    using getPropIn_Inr [OF h lat] by simp_all
  have o0: "ordered (h @ [?c0])"
    by (rule ordered_snoc [OF h]) (simp add: blon blat)
  have o1: "ordered ((h @ [?c0]) @ [?c1])"
    by (rule ordered_snoc [OF o0]) simp
  have "refsBelow (length ((h @ [?c0]) @ [?c1])) st"
    using st by (rule refsBelow_mono) simp
  then have o2: "ordered (((h @ [?c0]) @ [?c1]) @ [?c2])"
    by (intro ordered_snoc [OF o1]) simp
  then show "ordered h'" using h' by simp
  have d0: "denote (h @ [?c0]) (HRef (length h)) = JArr [denote h lon, denote h lat]"
    using denote_last [of h ?c0] by simp
  have d1: "denote ((h @ [?c0]) @ [?c1]) (HRef (length h + 1)) =
      JObj [(''type'', JStr ''Point''), (''coordinates'', JArr [denote h lon, denote h lat])]"
    using denote_last [of "h @ [?c0]" ?c1] d0 by simp
  have ds: "denote ((h @ [?c0]) @ [?c1]) st = denote h st"
    using st denote_append [of h st "[?c0, ?c1]"] by simp
  have d2: "denote (((h @ [?c0]) @ [?c1]) @ [?c2]) (HRef (length h + 2)) =
      JObj [(''type'', JStr ''Feature''),
            (''geometry'', JObj [(''type'', JStr ''Point''),
                                 (''coordinates'', JArr [denote h lon, denote h lat])]),
            (''properties'', denote h st)]"
    using denote_last [of "(h @ [?c0]) @ [?c1]" ?c2] d1 ds by simp
  have "denote h' y = JObj [(''type'', JStr ''Feature''),
            (''geometry'', JObj [(''type'', JStr ''Point''),
                                 (''coordinates'', JArr [denote h lon, denote h lat])]),
            (''properties'', denote h st)]"
    using d2 y h' by simp
  then show "transformStation (denote h st) = Inr (denote h' y)"
    using plon plat by (simp add: transformStation_def)
qed

lemma denote_map_append:
  "\<forall>x \<in> set xs. refsBelow (length h) x \<Longrightarrow> map (denote (h @ new)) xs = map (denote h) xs"
  by (simp add: denote_append)

lemma mapStationsIn_Inr:
  assumes "ordered h" and "\<forall>x \<in> set xs. refsBelow (length h) x"
    and "mapThrowingIn transformStationIn xs h = Inr (ys, h')"
  shows "(\<exists>new. h' = h @ new) \<and> ordered h' \<and> (\<forall>y \<in> set ys. refsBelow (length h') y)
    \<and> mapThrowing transformStation (map (denote h) xs) = Inr (map (denote h') ys)"
  using assms
proof (induction xs arbitrary: h ys)
  case Nil
  then have "ys = []" and "h' = h" by simp_all
  with Nil.prems(1) show ?case by simp
next
  case (Cons x xs)
  from Cons.prems(3) obtain y h1 where first: "transformStationIn x h = Inr (y, h1)"
    by (cases "transformStationIn x h") auto
  with Cons.prems(3) obtain ys' where rest: "mapThrowingIn transformStationIn xs h1 = Inr (ys', h')"
    and ys: "ys = y # ys'"
    by (cases "mapThrowingIn transformStationIn xs h1") auto
  from Cons.prems(2) have x: "refsBelow (length h) x" by simp
  note s = transformStationIn_Inr [OF Cons.prems(1) x first]
  from s(1) obtain n1 where h1: "h1 = h @ n1" by (rule exE)
  have xs1: "\<forall>x' \<in> set xs. refsBelow (length h1) x'"
    using Cons.prems(2) h1 by (auto intro: refsBelow_mono)
  from Cons.IH [OF s(2) xs1 rest]
  have ex: "\<exists>new. h' = h1 @ new" and o: "ordered h'"
    and below: "\<forall>y \<in> set ys'. refsBelow (length h') y"
    and m: "mapThrowing transformStation (map (denote h1) xs) = Inr (map (denote h') ys')"
    by simp_all
  from ex obtain n2 where h': "h' = h1 @ n2" by (rule exE)
  have y1: "refsBelow (length h1) y" using s(3,4) by simp
  then have dy: "denote h' y = denote h1 y" unfolding h' by (rule denote_append)
  have by': "refsBelow (length h') y" using y1 h' by (auto intro: refsBelow_mono)
  have mx: "map (denote h1) xs = map (denote h) xs"
    unfolding h1 using Cons.prems(2) by (intro denote_map_append) simp
  have "h' = h @ (n1 @ n2)" using h1 h' by simp
  then have e: "\<exists>new. h' = h @ new" by (rule exI)
  have "mapThrowing transformStation (map (denote h) (x # xs)) = Inr (map (denote h') ys)"
    using s(5) m mx dy ys by simp
  with e o below by' ys show ?case by simp
qed

lemma mapStationsIn_Inl:
  assumes "ordered h" and "\<forall>x \<in> set xs. refsBelow (length h) x"
    and "mapThrowingIn transformStationIn xs h = Inl e"
  shows "mapThrowing transformStation (map (denote h) xs) = Inl e"
  using assms
proof (induction xs arbitrary: h)
  case Nil
  then show ?case by simp
next
  case (Cons x xs)
  show ?case
  proof (cases "transformStationIn x h")
    case (Inl e')
    with Cons.prems(3) have "e' = e" by simp
    with Inl have "transformStation (denote h x) = Inl e"
      using transformStationIn_Inl by blast
    then show ?thesis by simp
  next
    case (Inr p)
    obtain y h1 where p: "p = (y, h1)" by (cases p)
    with Inr have first: "transformStationIn x h = Inr (y, h1)" by simp
    with Cons.prems(3) have rest: "mapThrowingIn transformStationIn xs h1 = Inl e"
      by (cases "mapThrowingIn transformStationIn xs h1") auto
    from Cons.prems(2) have x: "refsBelow (length h) x" by simp
    note s = transformStationIn_Inr [OF Cons.prems(1) x first]
    from s(1) obtain n1 where h1: "h1 = h @ n1" by (rule exE)
    have xs1: "\<forall>x' \<in> set xs. refsBelow (length h1) x'"
      using Cons.prems(2) h1 by (auto intro: refsBelow_mono)
    have m: "mapThrowing transformStation (map (denote h1) xs) = Inl e"
      using Cons.IH [OF s(2) xs1 rest] .
    have mx: "map (denote h1) xs = map (denote h) xs"
      unfolding h1 using Cons.prems(2) by (intro denote_map_append) simp
    show ?thesis using s(5) m mx by simp
  qed
qed

lemma callMapIn_Inr:
  assumes h: "ordered h" and r: "callMapIn v transformStationIn h = Inr (y, h')"
  shows "(\<exists>new. h' = h @ new) \<and> ordered h' \<and> y = HRef (length h' - 1)
    \<and> length h < length h'
    \<and> callMap (denote h v) transformStation = Inr (denote h' y)"
proof -
  from r obtain a where v: "v = HRef a"
    by (cases v) (simp_all add: callMapIn_def)
  with r have a: "a < length h"
    by (simp add: callMapIn_def split: if_splits)
  with r v obtain xs where xs: "h ! a = HArr xs"
    by (cases "h ! a") (simp_all add: callMapIn_def)
  with r v a obtain ys h1 where m: "mapThrowingIn transformStationIn xs h = Inr (ys, h1)"
    by (cases "mapThrowingIn transformStationIn xs h") (auto simp: callMapIn_def)
  with r v a xs have y: "y = HRef (length h1)" and h': "h' = h1 @ [HArr ys]"
    by (simp_all add: callMapIn_def)
  have low: "\<forall>x \<in> set xs. refsBelow a x"
    using orderedD [OF h a] xs by simp
  then have below: "\<forall>x \<in> set xs. refsBelow (length h) x"
    using a by (auto intro: refsBelow_mono)
  have "map (denote (take a h)) xs = map (denote h) xs"
    using low a by (simp add: denote_take)
  then have dv: "denote h v = JArr (map (denote h) xs)"
    using v a xs by simp
  from mapStationsIn_Inr [OF h below m]
  have ex: "\<exists>new. h1 = h @ new" and o1: "ordered h1"
    and b1: "\<forall>y \<in> set ys. refsBelow (length h1) y"
    and mv: "mapThrowing transformStation (map (denote h) xs) = Inr (map (denote h1) ys)"
    by simp_all
  from ex obtain n1 where h1: "h1 = h @ n1" by (rule exE)
  have "h' = h @ (n1 @ [HArr ys])" using h1 h' by simp
  then have e: "\<exists>new. h' = h @ new" by (rule exI)
  have o: "ordered h'" unfolding h' by (rule ordered_snoc [OF o1]) (simp add: b1)
  have dy: "denote h' y = JArr (map (denote h1) ys)"
    unfolding h' y using denote_last [of h1 "HArr ys"] by simp
  have c: "callMap (denote h v) transformStation = Inr (denote h' y)"
    using dv mv dy by simp
  from e o c show ?thesis using y h' h1 by simp
qed

lemma callMapIn_Inl:
  assumes h: "ordered h" and r: "callMapIn v transformStationIn h = Inl e"
  shows "callMap (denote h v) transformStation = Inl e"
proof (cases v)
  case (HRef a)
  show ?thesis
  proof (cases "a < length h")
    case False
    with r HRef show ?thesis by (simp add: callMapIn_def)
  next
    case a: True
    show ?thesis
    proof (cases "h ! a")
      case (HObj kvs)
      with r HRef a show ?thesis by (simp add: callMapIn_def)
    next
      case (HArr xs)
      with r HRef a have m: "mapThrowingIn transformStationIn xs h = Inl e"
        by (cases "mapThrowingIn transformStationIn xs h") (auto simp: callMapIn_def)
      have low: "\<forall>x \<in> set xs. refsBelow a x"
        using orderedD [OF h a] HArr by simp
      then have below: "\<forall>x \<in> set xs. refsBelow (length h) x"
        using a by (auto intro: refsBelow_mono)
      have "map (denote (take a h)) xs = map (denote h) xs"
        using low a by (simp add: denote_take)
      then have dv: "denote h v = JArr (map (denote h) xs)"
        using HRef a HArr by simp
      show ?thesis using dv mapStationsIn_Inl [OF h below m] by simp
    qed
  qed
qed (use r in \<open>simp_all add: callMapIn_def\<close>)

lemma transformFeedIn_Inl:
  assumes h: "ordered h" and r: "transformFeedIn raw h = Inl e"
  shows "transformFeed (denote h raw) = Inl e"
proof (cases "getPropIn h raw ''stationBeanList''")
  case (Inl e')
  with r have "e' = e" by (simp add: transformFeedIn_def)
  with Inl show ?thesis using getPropIn_Inl [of h raw "''stationBeanList''" e]
    by (simp add: transformFeed_def)
next
  case (Inr beans)
  with r have "callMapIn beans transformStationIn h = Inl e"
    by (cases "callMapIn beans transformStationIn h") (auto simp: transformFeedIn_def)
  then have "callMap (denote h beans) transformStation = Inl e"
    using h callMapIn_Inl by blast
  then show ?thesis using getPropIn_Inr [OF h Inr] by (simp add: transformFeed_def)
qed

lemma transformFeedIn_Inr:
  assumes h: "ordered h" and r: "transformFeedIn raw h = Inr (y, h')"
  shows "(\<exists>new. h' = h @ new) \<and> ordered h' \<and> y = HRef (length h' - 1)
    \<and> length h < length h'
    \<and> transformFeed (denote h raw) = Inr (denote h' y)"
proof -
  from r obtain beans where beans: "getPropIn h raw ''stationBeanList'' = Inr beans"
    by (cases "getPropIn h raw ''stationBeanList''") (simp_all add: transformFeedIn_def)
  with r obtain fs h1 where c: "callMapIn beans transformStationIn h = Inr (fs, h1)"
    by (cases "callMapIn beans transformStationIn h") (auto simp: transformFeedIn_def)
  let ?fc = "HObj [(''type'', HStr ''FeatureCollection''), (''features'', fs)]"
  from r beans c have y: "y = HRef (length h1)" and h': "h' = h1 @ [?fc]"
    by (simp_all add: transformFeedIn_def)
  from callMapIn_Inr [OF h c]
  have ex: "\<exists>new. h1 = h @ new" and o1: "ordered h1" and fs: "fs = HRef (length h1 - 1)"
    and len: "length h < length h1"
    and cv: "callMap (denote h beans) transformStation = Inr (denote h1 fs)"
    by simp_all
  from ex obtain n1 where h1: "h1 = h @ n1" by (rule exE)
  have "h' = h @ (n1 @ [?fc])" using h1 h' by simp
  then have e: "\<exists>new. h' = h @ new" by (rule exI)
  have bfs: "refsBelow (length h1) fs" using fs len by simp
  have o: "ordered h'" unfolding h' by (rule ordered_snoc [OF o1]) (simp add: bfs)
  have dy: "denote h' y =
      JObj [(''type'', JStr ''FeatureCollection''), (''features'', denote h1 fs)]"
    unfolding h' y using denote_last [of h1 ?fc] by simp
  have "transformFeed (denote h raw) = Inr (denote h' y)"
    using getPropIn_Inr [OF h beans] cv dy by (simp add: transformFeed_def)
  with e o show ?thesis using y h' len by simp
qed

lemma exampleHeap_ordered: "ordered exampleHeap"
  by (simp add: ordered_def exampleHeap_def numeral_3_eq_3 All_less_Suc)

lemma exampleHeap_run:
  "transformFeedIn (HRef 2) exampleHeap = Inr (HRef 7, exampleHeapAfter)"
  by (simp add: transformFeedIn_def callMapIn_def transformStationIn_def getPropIn_def
      exampleHeap_def exampleHeapAfter_def)

lemma exampleHeapAfter_denote: "denote exampleHeapAfter (HRef 7) = exampleCollection"
  by (simp add: exampleHeapAfter_def exampleHeap_def exampleCollection_def exampleStation_def
      featureCollection_def feature_def)

text \<open>
  C9. \<^verbatim>\<open>transformFeed\<close> is pure and deterministic. Run on an ordered store that holds
  the feed, its outcome, read off the store, is the outcome of the function
  \<^verbatim>\<open>transformFeed\<close> of the first model on the structure of the feed: it depends on
  nothing but the feed. When it returns, every object that was in the store is as it
  was, the function has only allocated; and a second call on the same feed returns
  again, a new object whose structure is identical to that of the first result, which
  the second call has not changed either. The transformer has no access to the server's
  variables: they are no argument of it.
\<close>

theorem transformFeed_pure:
  assumes h: "ordered h" and raw: "refsBelow (length h) raw"
  shows "map_sum id (\<lambda>p. denote (snd p) (fst p)) (transformFeedIn raw h)
           = transformFeed (denote h raw)
    \<and> (\<forall>y1 h1. transformFeedIn raw h = Inr (y1, h1) \<longrightarrow>
          take (length h) h1 = h
        \<and> (\<exists>y2 h2. transformFeedIn raw h1 = Inr (y2, h2)
              \<and> take (length h1) h2 = h1
              \<and> y2 \<noteq> y1
              \<and> denote h2 y2 = denote h2 y1
              \<and> denote h2 y1 = denote h1 y1))"
proof (intro conjI allI impI)
  show "map_sum id (\<lambda>p. denote (snd p) (fst p)) (transformFeedIn raw h)
           = transformFeed (denote h raw)"
  proof (cases "transformFeedIn raw h")
    case (Inl e)
    then show ?thesis using transformFeedIn_Inl [OF h Inl] by simp
  next
    case (Inr p)
    obtain y h' where p: "p = (y, h')" by (cases p)
    with Inr have "transformFeedIn raw h = Inr (y, h')" by simp
    from transformFeedIn_Inr [OF h this] Inr p show ?thesis by simp
  qed
next
  fix y1 h1
  assume r1: "transformFeedIn raw h = Inr (y1, h1)"
  from transformFeedIn_Inr [OF h r1]
  have ex: "\<exists>new. h1 = h @ new" and o1: "ordered h1" and y1: "y1 = HRef (length h1 - 1)"
    and len1: "length h < length h1"
    and v1: "transformFeed (denote h raw) = Inr (denote h1 y1)"
    by simp_all
  from ex obtain n1 where h1: "h1 = h @ n1" by (rule exE)
  then show "take (length h) h1 = h" by simp
  have draw: "denote h1 raw = denote h raw"
    unfolding h1 using raw by (rule denote_append)
  have "\<exists>y2 h2. transformFeedIn raw h1 = Inr (y2, h2)"
  proof (cases "transformFeedIn raw h1")
    case (Inl e)
    from transformFeedIn_Inl [OF o1 Inl] draw v1 show ?thesis by simp
  next
    case (Inr p)
    then show ?thesis by (cases p) simp
  qed
  then obtain y2 h2 where r2: "transformFeedIn raw h1 = Inr (y2, h2)" by blast
  from transformFeedIn_Inr [OF o1 r2]
  have ex2: "\<exists>new. h2 = h1 @ new" and y2: "y2 = HRef (length h2 - 1)"
    and len2: "length h1 < length h2"
    and v2: "transformFeed (denote h1 raw) = Inr (denote h2 y2)"
    by simp_all
  from ex2 obtain n2 where h2: "h2 = h1 @ n2" by (rule exE)
  have t2: "take (length h1) h2 = h1" using h2 by simp
  have ne: "y2 \<noteq> y1" using y1 y2 len1 len2 by simp
  have "refsBelow (length h1) y1" using y1 len1 by simp
  then have keep: "denote h2 y1 = denote h1 y1" unfolding h2 by (rule denote_append)
  have same: "denote h2 y2 = denote h2 y1" using v1 v2 draw keep by simp
  from r2 t2 ne same keep
  show "\<exists>y2 h2. transformFeedIn raw h1 = Inr (y2, h2)
              \<and> take (length h1) h2 = h1
              \<and> y2 \<noteq> y1
              \<and> denote h2 y2 = denote h2 y1
              \<and> denote h2 y1 = denote h1 y1"
    by blast
qed

theorem transformFeed_pure_witness:
  "transformFeedIn (HRef 2) exampleHeap = Inr (HRef 7, exampleHeapAfter)
   \<and> transformFeed (denote exampleHeap (HRef 2)) = Inr exampleCollection
   \<and> take (length exampleHeap) exampleHeapAfter = exampleHeap
   \<and> (\<exists>y2 h2. transformFeedIn (HRef 2) exampleHeapAfter = Inr (y2, h2)
          \<and> take (length exampleHeapAfter) h2 = exampleHeapAfter
          \<and> y2 \<noteq> HRef 7
          \<and> denote h2 y2 = denote h2 (HRef 7)
          \<and> denote h2 (HRef 7) = exampleCollection)"
proof -
  have b: "refsBelow (length exampleHeap) (HRef 2 :: string hval)"
    by (simp add: exampleHeap_def)
  note th = transformFeed_pure [OF exampleHeap_ordered b]
  from th have "map_sum id (\<lambda>p. denote (snd p) (fst p)) (transformFeedIn (HRef 2) exampleHeap)
           = transformFeed (denote exampleHeap (HRef 2))" by (rule conjunct1)
  then have v: "transformFeed (denote exampleHeap (HRef 2)) = Inr exampleCollection"
    by (simp add: exampleHeap_run exampleHeapAfter_denote del: denote.simps)
  from th exampleHeap_run
  have "take (length exampleHeap) exampleHeapAfter = exampleHeap
        \<and> (\<exists>y2 h2. transformFeedIn (HRef 2) exampleHeapAfter = Inr (y2, h2)
              \<and> take (length exampleHeapAfter) h2 = exampleHeapAfter
              \<and> y2 \<noteq> HRef 7
              \<and> denote h2 y2 = denote h2 (HRef 7)
              \<and> denote h2 (HRef 7) = denote exampleHeapAfter (HRef 7))"
    by blast
  with v exampleHeap_run show ?thesis
    by (simp add: exampleHeapAfter_denote del: denote.simps)
qed

end
